theory Spec2Isabelle
  imports Main "HOL-Library.Sublist"
begin

section \<open>The patcher script \<^verbatim>\<open>scripts/patch_ordinals_api.py\<close>\<close>

text \<open>
  The script is fourteen lines of Python 3:
  \<^verbatim>\<open>
  import sys
  patch_path = sys.argv[1]
  with open(patch_path, "r") as file:
    filedata = file.read()
  filedata = filedata.replace("export const BRC20_GENESIS_BLOCK = 779832;",
                              "export const BRC20_GENESIS_BLOCK = 0;")
  with open(patch_path, "w") as file:
    file.write(filedata)
  \<close>
  Its state is the outside world: the files, and the two output streams of the process.
  Exceptions are values of a sum type; the world at the moment an exception leaves the
  script is kept beside it. The platform is fixed: a POSIX system (\<^verbatim>\<open>os.linesep\<close> is
  \<^verbatim>\<open>\n\<close>) whose locale encoding is UTF-8.
\<close>

subsection \<open>The world the script runs in\<close>

type_synonym path = string

datatype error =
  IndexError | FileNotFoundError | IsADirectoryError | PermissionError | UnicodeDecodeError

text \<open>
  A regular file holds bytes (a \<open>char\<close> is a byte) and the two kinds of access that
  \<^verbatim>\<open>open\<close> checks for the process. Files are named by their path; links are not
  modelled, and a path that names nothing stands for every path that \<^verbatim>\<open>open\<close> cannot
  resolve (the model calls the error \<^verbatim>\<open>FileNotFoundError\<close> where the real one may be
  another subclass of \<^verbatim>\<open>OSError\<close>).
\<close>

record file_data =
  content :: string
  readable :: bool
  writable :: bool

datatype node = RegularFile file_data | Directory

record world =
  files :: "path \<rightharpoonup> node"
  stdout :: string
  stderr :: string

subsection \<open>Text-mode input and output\<close>

abbreviation CR :: char where "CR \<equiv> CHR 0x0D"
abbreviation LF :: char where "LF \<equiv> CHR 0x0A"

text \<open>
  \<^verbatim>\<open>open(path, "r")\<close> opens in text mode with the locale encoding, UTF-8, and
  \<^verbatim>\<open>errors="strict"\<close>: \<^verbatim>\<open>read()\<close> raises \<^verbatim>\<open>UnicodeDecodeError\<close> unless the bytes
  of the file are well-formed UTF-8. The well-formed byte sequences of one character are
  those of the Unicode standard (table 3-7), which CPython's decoder follows: a range
  for the first byte and ranges for the bytes after it. Overlong forms, surrogates and
  code points above \<open>U+10FFFF\<close> are not in the table.
\<close>

type_synonym byte_range = "nat \<times> nat"

fun in_range :: "byte_range \<Rightarrow> char \<Rightarrow> bool" where
  "in_range (lo, hi) c \<longleftrightarrow> lo \<le> of_char c \<and> (of_char c :: nat) \<le> hi"

definition well_formed_utf8 :: "(byte_range \<times> byte_range list) list" where
  "well_formed_utf8 =
    [((0x00, 0x7F), []),
     ((0xC2, 0xDF), [(0x80, 0xBF)]),
     ((0xE0, 0xE0), [(0xA0, 0xBF), (0x80, 0xBF)]),
     ((0xE1, 0xEC), [(0x80, 0xBF), (0x80, 0xBF)]),
     ((0xED, 0xED), [(0x80, 0x9F), (0x80, 0xBF)]),
     ((0xEE, 0xEF), [(0x80, 0xBF), (0x80, 0xBF)]),
     ((0xF0, 0xF0), [(0x90, 0xBF), (0x80, 0xBF), (0x80, 0xBF)]),
     ((0xF1, 0xF3), [(0x80, 0xBF), (0x80, 0xBF), (0x80, 0xBF)]),
     ((0xF4, 0xF4), [(0x80, 0x8F), (0x80, 0xBF), (0x80, 0xBF)])]"

text \<open>The bytes \<open>bs\<close> begin with one byte from each of the ranges, in their order.\<close>

fun follows :: "byte_range list \<Rightarrow> string \<Rightarrow> bool" where
  "follows [] bs = True"
| "follows (r # rs) [] = False"
| "follows (r # rs) (b # bs) = (in_range r b \<and> follows rs bs)"

text \<open>
  The decoder takes the row of the first byte, checks the bytes after it and goes on
  behind the character; it fails on a first byte outside every row, on a following byte
  outside its range and on a sequence cut short by the end of the file.
\<close>

text \<open>A byte below \<open>0x80\<close> is a character of its own.\<close>

abbreviation ascii :: "char \<Rightarrow> bool" where
  "ascii c \<equiv> (of_char c :: nat) \<le> 0x7F"

fun utf8_valid :: "string \<Rightarrow> bool" where
  "utf8_valid [] = True"
| "utf8_valid (b # bs) =
     (case find (\<lambda>row. in_range (fst row) b) well_formed_utf8 of
        None \<Rightarrow> False
      | Some row \<Rightarrow> follows (snd row) bs \<and> utf8_valid (drop (length (snd row)) bs))"

text \<open>
  In the model the text that \<^verbatim>\<open>read()\<close> returns is kept as its UTF-8 encoding, the
  bytes of the file: every character the script looks for (the carriage return, the line
  feed, the characters of the two literals) is a single byte below \<open>0x80\<close>, and
  no byte of a longer sequence is below \<open>0x80\<close>, so a character is found in the text
  exactly where its byte is found in the encoding, and writing the text back encodes it
  to the bytes the model holds.

  Text mode has \<^verbatim>\<open>newline=None\<close>, the default, which is universal-newlines mode: on
  input the line endings \<^verbatim>\<open>\r\n\<close> and \<^verbatim>\<open>\r\<close> are translated to \<^verbatim>\<open>\n\<close> before
  \<^verbatim>\<open>read()\<close> returns the text.
\<close>

fun translate_newlines :: "string \<Rightarrow> string" where
  "translate_newlines [] = []"
| "translate_newlines [c] = (if c = CR then [LF] else [c])"
| "translate_newlines (c # d # cs) =
     (if c = CR then
        (if d = LF then LF # translate_newlines cs
         else LF # translate_newlines (d # cs))
      else c # translate_newlines (d # cs))"

text \<open>
  On output, \<^verbatim>\<open>newline=None\<close> writes every \<^verbatim>\<open>\n\<close> as \<^verbatim>\<open>os.linesep\<close>, which on a
  POSIX system is \<^verbatim>\<open>\n\<close> itself.
\<close>

definition os_linesep :: string where
  "os_linesep = [LF]"

definition write_newlines :: "string \<Rightarrow> string" where
  "write_newlines s = concat (map (\<lambda>c. if c = LF then os_linesep else [c]) s)"

text \<open>
  \<^verbatim>\<open>with open(p, "r") as file: filedata = file.read()\<close>: the open fails on a missing
  path, on a directory and on a file without read permission, and then the read fails on
  bytes that are not well-formed UTF-8; the world is not changed.
\<close>

definition read_text :: "path \<Rightarrow> world \<Rightarrow> error + string" where
  "read_text p w =
     (case files w p of
        None \<Rightarrow> Inl FileNotFoundError
      | Some Directory \<Rightarrow> Inl IsADirectoryError
      | Some (RegularFile f) \<Rightarrow>
          if \<not> readable f then Inl PermissionError
          else if \<not> utf8_valid (content f) then Inl UnicodeDecodeError
          else Inr (translate_newlines (content f)))"

text \<open>
  \<^verbatim>\<open>with open(p, "w") as file: file.write(s)\<close>: the open fails on a directory and on a
  file without write permission, before anything is truncated; on an existing file the
  content is replaced and the permissions stay; a missing path gets a new file (the
  script never reaches that case, its read comes first).
\<close>

definition write_text :: "path \<Rightarrow> string \<Rightarrow> world \<Rightarrow> error + world" where
  "write_text p s w =
     (case files w p of
        None \<Rightarrow>
          Inr (w\<lparr>files := (files w)(p \<mapsto>
                 RegularFile \<lparr>content = write_newlines s, readable = True, writable = True\<rparr>)\<rparr>)
      | Some Directory \<Rightarrow> Inl IsADirectoryError
      | Some (RegularFile f) \<Rightarrow>
          if writable f
          then Inr (w\<lparr>files := (files w)(p \<mapsto> RegularFile (f\<lparr>content := write_newlines s\<rparr>))\<rparr>)
          else Inl PermissionError)"

subsection \<open>\<^verbatim>\<open>str.replace\<close>\<close>

text \<open>
  \<^verbatim>\<open>s.replace(old, new)\<close> scans \<open>s\<close> from the left; at a position where \<open>old\<close> starts
  it emits \<open>new\<close> and goes on behind the match, elsewhere it copies one character. With
  an empty \<open>old\<close>, Python puts \<open>new\<close> before every character and at the end.
\<close>

fun str_replace :: "string \<Rightarrow> string \<Rightarrow> string \<Rightarrow> string" where
  "str_replace [] new s = new @ concat (map (\<lambda>c. c # new) s)"
| "str_replace old new [] = []"
| "str_replace old new (c # cs) =
     (if prefix old (c # cs)
      then new @ str_replace old new (drop (length old) (c # cs))
      else c # str_replace old new cs)"

subsection \<open>The script\<close>

definition search_literal :: string where
  "search_literal = ''export const BRC20_GENESIS_BLOCK = 779832;''"

definition replacement_literal :: string where
  "replacement_literal = ''export const BRC20_GENESIS_BLOCK = 0;''"

text \<open>
  The module body, run with \<^verbatim>\<open>sys.argv = argv\<close>. \<^verbatim>\<open>sys.argv[1]\<close> raises
  \<^verbatim>\<open>IndexError\<close> on a list shorter than two. The result is \<open>Inr\<close> the world after a
  run that reaches the end, and \<open>Inl\<close> the exception that leaves the script together with
  the world at that moment (what the interpreter does with the exception afterwards, the
  traceback and the exit status, is not part of the script).
\<close>

definition patch_ordinals_api :: "string list \<Rightarrow> world \<Rightarrow> (error \<times> world) + world" where
  "patch_ordinals_api argv w =
     (case argv of
        _ # patch_path # _ \<Rightarrow>
          (case read_text patch_path w of
             Inl e \<Rightarrow> Inl (e, w)
           | Inr filedata \<Rightarrow>
               (let filedata' = str_replace search_literal replacement_literal filedata
                in case write_text patch_path filedata' w of
                     Inl e \<Rightarrow> Inl (e, w)
                   | Inr w' \<Rightarrow> Inr w'))
      | _ \<Rightarrow> Inl (IndexError, w))"

subsection \<open>Notions the properties are stated with\<close>

text \<open>
  The number of positions of \<open>s\<close> at which \<open>old\<close> starts, and the number of
  \<^verbatim>\<open>\r\n\<close> pairs that universal-newlines mode reads as one character.
\<close>

fun crlf_pairs :: "string \<Rightarrow> nat" where
  "crlf_pairs (c # d # cs) =
     (if c = CR \<and> d = LF then Suc (crlf_pairs cs) else crlf_pairs (d # cs))"
| "crlf_pairs _ = 0"

fun occurrences :: "string \<Rightarrow> string \<Rightarrow> nat" where
  "occurrences old [] = 0"
| "occurrences old (c # cs) = (if prefix old (c # cs) then 1 else 0) + occurrences old cs"

text \<open>
  What the specification calls replace-all, left to right, non-overlapping: a text
  without the literal stays as it is; otherwise the text is cut at the leftmost
  occurrence (no occurrence starts before it), the occurrence becomes \<open>new\<close>, the text
  before it is kept, and the rest is treated in the same way.
\<close>

inductive replaced_all :: "string \<Rightarrow> string \<Rightarrow> string \<Rightarrow> string \<Rightarrow> bool"
  for old new :: string where
  no_match: "\<not> sublist old s \<Longrightarrow> replaced_all old new s s"
| leftmost: "\<not> sublist old (p @ butlast old) \<Longrightarrow> replaced_all old new r t
     \<Longrightarrow> replaced_all old new (p @ old @ r) (p @ new @ t)"

text \<open>The world a run leaves, whether it ends normally or with an exception.\<close>

definition final_world :: "(error \<times> world) + world \<Rightarrow> world" where
  "final_world r = (case r of Inl (e, w) \<Rightarrow> w | Inr w \<Rightarrow> w)"

text \<open>\<open>x\<close> stands in \<open>s\<close> at position \<open>i\<close>, counted from zero.\<close>

definition occurs_at :: "string \<Rightarrow> string \<Rightarrow> nat \<Rightarrow> bool" where
  "occurs_at x s i \<longleftrightarrow> i \<le> length s \<and> prefix x (drop i s)"

text \<open>
  \<^verbatim>\<open>sep.join(parts)\<close>: the parts in their order with \<open>sep\<close> between neighbours. A text
  written as \<open>join old ps\<close> shows its matched spans (the separators) and everything
  outside them (the parts).
\<close>

fun join :: "string \<Rightarrow> string list \<Rightarrow> string" where
  "join sep [] = []"
| "join sep [p] = p"
| "join sep (p # q # ps) = p @ sep @ join sep (q # ps)"

section \<open>Properties of \<^verbatim>\<open>str.replace\<close>\<close>

text \<open>
  Without a match the text is copied; at a match the replacement is emitted and the scan
  goes on behind it.
\<close>

lemma str_replace_no_match: "\<not> sublist old s \<Longrightarrow> str_replace old new s = s"
  by (induction old new s rule: str_replace.induct) (auto simp: sublist_Cons_right)

lemma str_replace_at_match: "old \<noteq> [] \<Longrightarrow> str_replace old new (old @ r) = new @ str_replace old new r"
  by (cases old) auto

lemma str_replace_skip:
  "\<not> prefix old (c # cs) \<Longrightarrow> old \<noteq> [] \<Longrightarrow> str_replace old new (c # cs) = c # str_replace old new cs"
  by (cases old) auto

lemma prefix_no_first:
  "prefix x (str_replace (a # u) (a # v) s) \<Longrightarrow> a \<notin> set x \<Longrightarrow> prefix x s"
proof (induction s arbitrary: x)
  case Nil
  then show ?case by simp
next
  case (Cons c cs)
  show ?case
  proof (cases x)
    case Nil
    then show ?thesis by simp
  next
    case (Cons b y)
    show ?thesis
    proof (cases "prefix (a # u) (c # cs)")
      case True
      with Cons.prems \<open>x = b # y\<close> show ?thesis by auto
    next
      case False
      with Cons.prems \<open>x = b # y\<close> Cons.IH [of y] show ?thesis by auto
    qed
  qed
qed

lemma sublist_inside_no_first:
  "a \<notin> set v \<Longrightarrow> sublist (a # u) (v @ t) \<Longrightarrow> sublist (a # u) t"
  by (induction v) (auto simp: sublist_Cons_right)

lemma no_match_remains:
  assumes u: "a \<notin> set u" and v: "a \<notin> set v" and d: "\<And>t. \<not> prefix u (v @ t)"
  shows "\<not> sublist (a # u) (str_replace (a # u) (a # v) s)"
proof (induction s rule: length_induct)
  case (1 s)
  show ?case
  proof (cases s)
    case Nil
    then show ?thesis by simp
  next
    case (Cons c cs)
    show ?thesis
    proof (cases "prefix (a # u) (c # cs)")
      case True
      let ?r = "drop (length (a # u)) (c # cs)"
      have "length ?r < length s" using Cons by simp
      with 1 have "\<not> sublist (a # u) (str_replace (a # u) (a # v) ?r)" by blast
      then have "\<not> sublist (a # u) (v @ str_replace (a # u) (a # v) ?r)"
        using sublist_inside_no_first [OF v] by blast
      with True d Cons show ?thesis by (auto simp: sublist_Cons_right)
    next
      case False
      have "\<not> prefix (a # u) (c # str_replace (a # u) (a # v) cs)"
        using prefix_no_first [of u a u v cs] u False by auto
      moreover have "\<not> sublist (a # u) (str_replace (a # u) (a # v) cs)"
        using 1 Cons by simp
      ultimately show ?thesis
        using Cons str_replace_skip [OF False, of "a # v"] \<open>\<not> prefix (a # u) (c # str_replace (a # u) (a # v) cs)\<close> by (simp add: sublist_Cons_right)
    qed
  qed
qed

lemma no_straddle:
  assumes u: "a \<notin> set u" and np: "\<not> prefix (a # u) (c # cs)"
  shows "\<not> prefix (a # u) (c # cs @ (a # u) @ post)"
proof
  assume p: "prefix (a # u) (c # cs @ (a # u) @ post)"
  then have ca: "c = a" and pu: "prefix u (cs @ (a # u) @ post)" by auto
  show False
  proof (cases "length u \<le> length cs")
    case True
    with pu have "prefix u cs" by (auto simp: prefix_append dest: prefix_length_le)
    with ca np show False by simp
  next
    case False
    then have "length cs < length u" by simp
    moreover from pu have "take (length u) (cs @ (a # u) @ post) = u"
      by (metis append_eq_conv_conj prefix_def)
    ultimately have "u ! length cs = a"
      by (metis append_Cons nth_append_length nth_take)
    with \<open>length cs < length u\<close> u show False by (metis nth_mem)
  qed
qed

lemma str_replace_around:
  assumes u: "a \<notin> set u"
  shows "str_replace (a # u) new (pre @ (a # u) @ post)
           = str_replace (a # u) new pre @ new @ str_replace (a # u) new post"
proof (induction pre rule: length_induct)
  case (1 pre)
  show ?case
  proof (cases pre)
    case Nil
    then show ?thesis using str_replace_at_match [of "a # u" new post] by simp
  next
    case (Cons c cs)
    show ?thesis
    proof (cases "prefix (a # u) (c # cs)")
      case True
      then obtain r where r: "c # cs = (a # u) @ r" by (auto simp: prefix_def)
      then have "length r < length pre" using Cons by (metis add_Suc length_Cons length_append less_add_Suc2)
      with 1 have ih: "str_replace (a # u) new (r @ (a # u) @ post)
           = str_replace (a # u) new r @ new @ str_replace (a # u) new post" by blast
      have "str_replace (a # u) new ((c # cs) @ (a # u) @ post) 
              = new @ str_replace (a # u) new (r @ (a # u) @ post)"
        using str_replace_at_match [of "a # u" new "r @ (a # u) @ post"] r by simp
      moreover have "str_replace (a # u) new (c # cs) = new @ str_replace (a # u) new r"
        using str_replace_at_match [of "a # u" new r] r by simp
      ultimately show ?thesis using ih Cons by simp
    next
      case False
      have "str_replace (a # u) new (cs @ (a # u) @ post)
           = str_replace (a # u) new cs @ new @ str_replace (a # u) new post"
        using 1 Cons by simp
      moreover have "str_replace (a # u) new (c # cs @ (a # u) @ post)
           = c # str_replace (a # u) new (cs @ (a # u) @ post)"
        using no_straddle [OF u False, of post] by (rule str_replace_skip) simp
      moreover have "str_replace (a # u) new (c # cs) = c # str_replace (a # u) new cs"
        using False by (rule str_replace_skip) simp
      ultimately show ?thesis using Cons by simp
    qed
  qed
qed

lemma not_sublist_butlast: "old \<noteq> [] \<Longrightarrow> \<not> sublist old (butlast old)"
  using sublist_length_le [of old "butlast old"] by (cases old) auto

lemma prefix_butlast_append: "prefix (c # p @ butlast old) (c # p @ old @ r)"
proof (cases old rule: rev_cases)
  case Nil
  then show ?thesis by simp
next
  case (snoc b l)
  then show ?thesis by simp
qed

lemma prefix_old_butlast:
  assumes "prefix old (c # p @ old @ r)"
  shows "prefix old (c # p @ butlast old)"
proof (cases "old = []")
  case True
  then show ?thesis by simp
next
  case False
  then have "length old \<le> length (c # p @ butlast old)" by simp
  with assms prefix_butlast_append [of c p old r] show ?thesis
    by (rule prefix_length_prefix)
qed

lemma str_replace_leftmost:
  assumes "old \<noteq> []"
  shows "\<not> sublist old (p @ butlast old) \<Longrightarrow>
    str_replace old new (p @ old @ r) = p @ new @ str_replace old new r"
proof (induction p)
  case Nil
  then show ?case using str_replace_at_match [OF assms] by simp
next
  case (Cons c p)
  from Cons.prems have np: "\<not> prefix old (c # p @ butlast old)"
    and ns: "\<not> sublist old (p @ butlast old)"
    by (auto simp: sublist_Cons_right)
  from np have "\<not> prefix old (c # p @ old @ r)" using prefix_old_butlast [of old c p r] by auto
  then have "str_replace old new (c # p @ old @ r) = c # str_replace old new (p @ old @ r)"
    using assms by (rule str_replace_skip)
  with Cons.IH [OF ns] show ?case by simp
qed

lemma replaced_all_unique:
  assumes "old \<noteq> []"
  shows "replaced_all old new s t \<Longrightarrow> t = str_replace old new s"
proof (induction rule: replaced_all.induct)
  case (no_match s)
  then show ?case by (simp add: str_replace_no_match)
next
  case (leftmost p r t)
  then show ?case using str_replace_leftmost [OF assms] by simp
qed

lemma replaced_all_Cons:
  assumes np: "\<not> prefix old (c # cs)" and ra: "replaced_all old new cs t"
  shows "replaced_all old new (c # cs) (c # t)"
  using ra
proof (cases rule: replaced_all.cases)
  case no_match
  with np have "\<not> sublist old (c # cs)" by (simp add: sublist_Cons_right)
  with no_match show ?thesis using replaced_all.no_match by simp
next
  case (leftmost p r t')
  have "\<not> prefix old (c # p @ butlast old)"
  proof
    assume "prefix old (c # p @ butlast old)"
    then have "prefix old (c # p @ old @ r)"
      using prefix_butlast_append [of c p old r] by (rule prefix_order.trans)
    with np leftmost show False by simp
  qed
  with leftmost have "\<not> sublist old ((c # p) @ butlast old)"
    by (simp add: sublist_Cons_right)
  from replaced_all.leftmost [OF this leftmost(4)] leftmost show ?thesis by simp
qed

lemma replaced_all_str_replace:
  assumes "old \<noteq> []"
  shows "replaced_all old new s (str_replace old new s)"
proof (induction s rule: length_induct)
  case (1 s)
  show ?case
  proof (cases s)
    case Nil
    then show ?thesis using assms replaced_all.no_match [of old "[]"] by (cases old) auto
  next
    case (Cons c cs)
    show ?thesis
    proof (cases "prefix old (c # cs)")
      case True
      then obtain r where r: "s = old @ r" using Cons by (auto simp: prefix_def)
      with assms have "length r < length s" by simp
      with 1 have "replaced_all old new r (str_replace old new r)" by blast
      moreover have "\<not> sublist old ([] @ butlast old)"
        using not_sublist_butlast [OF assms] by simp
      ultimately have "replaced_all old new ([] @ old @ r) ([] @ new @ str_replace old new r)"
        by (rule replaced_all.leftmost [rotated])
      then show ?thesis using r str_replace_at_match [OF assms, of new r] by simp
    next
      case False
      have "replaced_all old new cs (str_replace old new cs)" using 1 Cons by simp
      with False have "replaced_all old new (c # cs) (c # str_replace old new cs)"
        by (rule replaced_all_Cons)
      then show ?thesis using Cons str_replace_skip [OF False assms, of new] by simp
    qed
  qed
qed

lemma first_occurrence:
  assumes "old \<noteq> []"
  shows "sublist old s \<Longrightarrow> \<exists>p r. s = p @ old @ r \<and> \<not> sublist old (p @ butlast old)"
proof (induction s)
  case Nil
  then show ?case using assms by simp
next
  case (Cons c cs)
  show ?case
  proof (cases "prefix old (c # cs)")
    case True
    then obtain r where "c # cs = [] @ old @ r" by (auto simp: prefix_def)
    moreover have "\<not> sublist old ([] @ butlast old)"
      using not_sublist_butlast [OF assms] by simp
    ultimately show ?thesis by blast
  next
    case False
    with Cons.prems have "sublist old cs" by (simp add: sublist_Cons_right)
    with Cons.IH obtain p r where pr: "cs = p @ old @ r" "\<not> sublist old (p @ butlast old)" by blast
    have "\<not> prefix old (c # p @ butlast old)"
    proof
      assume "prefix old (c # p @ butlast old)"
      then have "prefix old (c # p @ old @ r)"
        using prefix_butlast_append [of c p old r] by (rule prefix_order.trans)
      with False pr show False by simp
    qed
    with pr have "\<not> sublist old ((c # p) @ butlast old)" by (simp add: sublist_Cons_right)
    moreover have "c # cs = (c # p) @ old @ r" using pr by simp
    ultimately show ?thesis by blast
  qed
qed

lemma pieces:
  assumes "old \<noteq> []"
  shows "\<exists>ps. s = join old ps \<and> str_replace old new s = join new ps
           \<and> (\<forall>x \<in> set ps. \<not> sublist old x) \<and> ps \<noteq> []"
proof (induction s rule: length_induct)
  case (1 s)
  show ?case
  proof (cases "sublist old s")
    case False
    then have "s = join old [s] \<and> str_replace old new s = join new [s]
       \<and> (\<forall>x \<in> set [s]. \<not> sublist old x) \<and> [s] \<noteq> []"
      by (simp add: str_replace_no_match)
    then show ?thesis by blast
  next
    case True
    then obtain p r where pr: "s = p @ old @ r" "\<not> sublist old (p @ butlast old)"
      using first_occurrence [OF assms] by blast
    with assms have "length r < length s" by simp
    with 1 obtain ps where ps: "r = join old ps" "str_replace old new r = join new ps"
      "\<forall>x \<in> set ps. \<not> sublist old x" "ps \<noteq> []" by blast
    then obtain q qs where q: "ps = q # qs" by (cases ps) auto
    have np: "\<not> sublist old p" using pr(2) by (auto simp: sublist_append)
    have "s = join old (p # ps)" using pr ps q by simp
    moreover have "str_replace old new s = join new (p # ps)"
      using str_replace_leftmost [OF assms pr(2), of new r] pr ps q by simp
    moreover have "\<forall>x \<in> set (p # ps). \<not> sublist old x" using np ps by simp
    ultimately show ?thesis by blast
  qed
qed

text \<open>
  The characters of the result come from the text and from \<open>new\<close>; when the first
  character of \<open>old\<close> does not come back inside it, occurrences cannot overlap and the
  length of the result is fixed by their number.
\<close>

lemma set_str_replace: "set (str_replace old new s) \<subseteq> set new \<union> set s"
proof (induction old new s rule: str_replace.induct)
  case (1 new s)
  then show ?case by auto
next
  case (2 v va new)
  then show ?case by simp
next
  case (3 v va new c cs)
  then show ?case using set_drop_subset [of "length va" cs] by auto
qed

lemma occurrences_skip:
  "a \<notin> set x \<Longrightarrow> occurrences (a # u) (x @ t) = occurrences (a # u) t"
  by (induction x) auto

lemma occurrences_at_match:
  "a \<notin> set u \<Longrightarrow> occurrences (a # u) ((a # u) @ r) = Suc (occurrences (a # u) r)"
  using occurrences_skip [of a u u r] by simp

lemma length_str_replace:
  assumes u: "a \<notin> set u"
  shows "length (str_replace (a # u) new s) + length (a # u) * occurrences (a # u) s
           = length s + length new * occurrences (a # u) s"
proof (induction s rule: length_induct)
  case (1 s)
  show ?case
  proof (cases s)
    case Nil
    then show ?thesis by simp
  next
    case (Cons c cs)
    show ?thesis
    proof (cases "prefix (a # u) (c # cs)")
      case True
      then obtain r where r: "s = (a # u) @ r" using Cons by (auto simp: prefix_def)
      then have "length r < length s" by simp
      with 1 have "length (str_replace (a # u) new r) + length (a # u) * occurrences (a # u) r
           = length r + length new * occurrences (a # u) r" by blast
      then show ?thesis
        unfolding r str_replace_at_match [of "a # u" new r, simplified]
          occurrences_at_match [OF u]
        by simp
    next
      case False
      have "length (str_replace (a # u) new cs) + length (a # u) * occurrences (a # u) cs
           = length cs + length new * occurrences (a # u) cs"
        using 1 Cons by simp
      moreover have "str_replace (a # u) new s = c # str_replace (a # u) new cs"
        using str_replace_skip [OF False, of new] Cons by simp
      moreover have "occurrences (a # u) s = occurrences (a # u) cs"
        using False Cons by auto
      moreover have "length s = Suc (length cs)"
        using Cons by simp
      ultimately show ?thesis by simp
    qed
  qed
qed

lemma occurrences_pos: "old \<noteq> [] \<Longrightarrow> 0 < occurrences old s \<longleftrightarrow> sublist old s"
  by (induction s) (auto simp: sublist_Cons_right)

section \<open>Properties of text-mode input and output\<close>

text \<open>
  Reading drops every carriage return; a text without one is read as it is. A literal
  without line endings starts at the same places before and after the translation.
\<close>


lemma translate_no_CR: "CR \<notin> set s \<Longrightarrow> translate_newlines s = s"
  by (induction s rule: translate_newlines.induct) auto

lemma CR_notin_translate: "CR \<notin> set (translate_newlines s)"
  by (induction s rule: translate_newlines.induct) auto

lemma length_translate: "length (translate_newlines s) + crlf_pairs s = length s"
  by (induction s rule: translate_newlines.induct) auto

lemma prefix_translate:
  "CR \<notin> set x \<Longrightarrow> LF \<notin> set x \<Longrightarrow> prefix x (translate_newlines s) \<longleftrightarrow> prefix x s"
proof (induction s arbitrary: x rule: translate_newlines.induct)
  case 1
  then show ?case by simp
next
  case (2 c)
  then show ?case by (cases x) auto
next
  case (3 c d cs)
  then show ?case by (cases x) auto
qed

lemma occurrences_translate:
  assumes "old \<noteq> []" "CR \<notin> set old" "LF \<notin> set old"
  shows "occurrences old (translate_newlines s) = occurrences old s"
proof (induction s rule: translate_newlines.induct)
  case 1
  then show ?case by simp
next
  case (2 c)
  then show ?case using assms by (cases old) auto
next
  case (3 c d cs)
  have p: "prefix old (translate_newlines (c # d # cs)) \<longleftrightarrow> prefix old (c # d # cs)"
    using assms prefix_translate by blast
  show ?case
  proof (cases "c = CR")
    case True
    with 3 assms show ?thesis by (cases old) auto
  next
    case False
    with 3 p show ?thesis by simp
  qed
qed

lemma translate_append_left: "CR \<notin> set p \<Longrightarrow> translate_newlines (p @ s) = p @ translate_newlines s"
proof (induction p)
  case Nil
  then show ?case by simp
next
  case (Cons c p)
  then show ?case by (cases "p @ s") auto
qed

lemma write_newlines_posix: "write_newlines s = s"
  by (induction s) (auto simp: write_newlines_def os_linesep_def)

lemma translate_append_not_LF:
  "s = [] \<or> hd s \<noteq> LF \<Longrightarrow> translate_newlines (p @ s) = translate_newlines p @ translate_newlines s"
proof (induction p rule: translate_newlines.induct)
  case 1
  then show ?case by simp
next
  case (2 c)
  then show ?case by (cases s) auto
next
  case (3 c d cs)
  then show ?case by simp
qed

section \<open>Well-formed UTF-8\<close>

text \<open>
  A byte below \<open>0x80\<close> is never inside a longer sequence, so well-formed bytes may be
  cut and joined at such a byte; well-formed bytes stay well-formed when they are read in
  text mode.
\<close>

lemma find_ascii:
  "ascii a \<Longrightarrow> find (\<lambda>row. in_range (fst row) a) well_formed_utf8 = Some ((0x00, 0x7F), [])"
  by (simp add: well_formed_utf8_def)

lemma utf8_valid_ascii_Cons [simp]: "ascii a \<Longrightarrow> utf8_valid (a # s) \<longleftrightarrow> utf8_valid s"
  by (simp add: find_ascii)

lemma follows_append: "follows rs bs \<Longrightarrow> follows rs (bs @ y)"
  by (induction rs bs rule: follows.induct) auto

lemma follows_length: "follows rs bs \<Longrightarrow> length rs \<le> length bs"
  by (induction rs bs rule: follows.induct) auto

lemma follows_before_ascii:
  "\<forall>r \<in> set rs. 0x80 \<le> fst r \<Longrightarrow> ascii a \<Longrightarrow> follows rs (bs @ a # y) \<longleftrightarrow> follows rs bs"
proof (induction rs bs rule: follows.induct)
  case (1 bs)
  then show ?case by simp
next
  case (2 r rs)
  then show ?case by (cases r) auto
next
  case (3 r rs b bs)
  then show ?case by simp
qed

lemma continuation_ranges:
  "row \<in> set well_formed_utf8 \<Longrightarrow> \<forall>r \<in> set (snd row). 0x80 \<le> fst r"
  by (auto simp: well_formed_utf8_def)

lemma utf8_valid_at_ascii:
  "ascii a \<Longrightarrow> utf8_valid (x @ a # y) \<longleftrightarrow> utf8_valid x \<and> utf8_valid y"
proof (induction x rule: length_induct)
  case (1 x)
  show ?case
  proof (cases x)
    case Nil
    with 1(2) show ?thesis by (simp del: utf8_valid.simps(2))
  next
    case (Cons b bs)
    show ?thesis
    proof (cases "find (\<lambda>row. in_range (fst row) b) well_formed_utf8")
      case None
      with Cons show ?thesis by simp
    next
      case (Some row)
      then have "row \<in> set well_formed_utf8" by (auto simp: find_Some_iff)
      then have f: "follows (snd row) (bs @ a # y) \<longleftrightarrow> follows (snd row) bs"
        using follows_before_ascii [OF continuation_ranges 1(2)] by blast
      show ?thesis
      proof (cases "follows (snd row) bs")
        case False
        with f Some Cons show ?thesis by simp
      next
        case True
        then have le: "length (snd row) \<le> length bs" by (rule follows_length)
        then have "length (drop (length (snd row)) bs) < length x" using Cons by simp
        with 1 have "utf8_valid (drop (length (snd row)) bs @ a # y)
          \<longleftrightarrow> utf8_valid (drop (length (snd row)) bs) \<and> utf8_valid y" by blast
        with True f Some Cons le show ?thesis by simp
      qed
    qed
  qed
qed

lemma utf8_valid_append:
  "utf8_valid x \<Longrightarrow> utf8_valid (x @ y) \<longleftrightarrow> utf8_valid y"
proof (induction x rule: length_induct)
  case (1 x)
  show ?case
  proof (cases x)
    case Nil
    then show ?thesis by simp
  next
    case (Cons b bs)
    with 1(2) obtain row where row: "find (\<lambda>row. in_range (fst row) b) well_formed_utf8 = Some row"
      and f: "follows (snd row) bs" and v: "utf8_valid (drop (length (snd row)) bs)"
      by (auto split: option.splits)
    from f have le: "length (snd row) \<le> length bs" by (rule follows_length)
    then have "length (drop (length (snd row)) bs) < length x" using Cons by simp
    with 1(1) v have "utf8_valid (drop (length (snd row)) bs @ y) \<longleftrightarrow> utf8_valid y" by blast
    with row follows_append [OF f, of y] le Cons show ?thesis by simp
  qed
qed

lemma utf8_valid_all_ascii: "\<forall>c \<in> set s. ascii c \<Longrightarrow> utf8_valid s"
  by (induction s) (simp_all del: utf8_valid.simps(2))

lemma utf8_valid_translate: "utf8_valid s \<Longrightarrow> utf8_valid (translate_newlines s)"
proof (induction s rule: length_induct)
  case (1 s)
  show ?case
  proof (cases "CR \<in> set s")
    case False
    with 1(2) show ?thesis by (simp add: translate_no_CR)
  next
    case True
    then obtain p r where s: "s = p @ CR # r" and p: "CR \<notin> set p"
      by (auto dest: split_list_first)
    from 1(2) s have vp: "utf8_valid p" and vr: "utf8_valid r"
      by (simp_all add: utf8_valid_at_ascii)
    have t: "translate_newlines s = p @ translate_newlines (CR # r)"
      using s p by (simp add: translate_append_left)
    show ?thesis
    proof (cases r)
      case Nil
      with t vp show ?thesis by (simp add: utf8_valid_at_ascii)
    next
      case (Cons d r')
      show ?thesis
      proof (cases "d = LF")
        case True
        with vr Cons have "utf8_valid r'" by (simp del: utf8_valid.simps(2))
        moreover have "length r' < length s" using s Cons by simp
        ultimately have "utf8_valid (translate_newlines r')" using 1(1) by blast
        with t vp Cons True show ?thesis by (simp add: utf8_valid_at_ascii)
      next
        case False
        have "length r < length s" using s by simp
        with vr 1(1) have "utf8_valid (translate_newlines r)" by blast
        with t vp Cons False show ?thesis by (simp add: utf8_valid_at_ascii)
      qed
    qed
  qed
qed

section \<open>Facts about the two literals\<close>

text \<open>
  Both literals begin with \<open>e\<close>, which occurs nowhere else in either of them, and they
  differ at their 36th character. So the search literal cannot overlap itself, and a
  replacement cannot form a new occurrence with the text around it.
\<close>

lemma search_literal_Cons: "search_literal = CHR ''e'' # tl search_literal"
  by (simp add: search_literal_def)

lemma replacement_literal_Cons: "replacement_literal = CHR ''e'' # tl replacement_literal"
  by (simp add: replacement_literal_def)

lemma search_literal_tail: "CHR ''e'' \<notin> set (tl search_literal)"
  by (simp add: search_literal_def)

lemma replacement_literal_tail: "CHR ''e'' \<notin> set (tl replacement_literal)"
  by (simp add: replacement_literal_def)

lemma literal_tails_differ: "\<not> prefix (tl search_literal) (tl replacement_literal @ t)"
  by (simp add: search_literal_def replacement_literal_def)

lemma search_literal_no_newline: "CR \<notin> set search_literal" "LF \<notin> set search_literal"
  by (simp_all add: search_literal_def)

lemma replacement_literal_no_CR: "CR \<notin> set replacement_literal"
  by (simp add: replacement_literal_def)

lemma search_literal_nonempty: "search_literal \<noteq> []"
  by (simp add: search_literal_def)

lemma length_literals: "length search_literal = 42" "length replacement_literal = 37"
  by (simp_all add: search_literal_def replacement_literal_def)

lemma no_search_literal_left:
  "\<not> sublist search_literal (str_replace search_literal replacement_literal s)"
  using no_match_remains [OF search_literal_tail replacement_literal_tail literal_tails_differ, of s]
    search_literal_Cons replacement_literal_Cons by simp

lemma str_replace_around_literal:
  "str_replace search_literal new (pre @ search_literal @ post)
     = str_replace search_literal new pre @ new @ str_replace search_literal new post"
  using str_replace_around [OF search_literal_tail, of new pre post] search_literal_Cons by simp

lemma length_patched:
  "length (str_replace search_literal replacement_literal s) + 5 * occurrences search_literal s
     = length s"
proof -
  have "length (str_replace search_literal replacement_literal s)
          + length search_literal * occurrences search_literal s
        = length s + length replacement_literal * occurrences search_literal s"
    using length_str_replace [OF search_literal_tail, of replacement_literal s]
      search_literal_Cons by simp
  then show ?thesis by (simp add: length_literals)
qed

lemma no_CR_patched:
  "CR \<notin> set (str_replace search_literal replacement_literal (translate_newlines s))"
  using set_str_replace [of search_literal replacement_literal "translate_newlines s"]
    replacement_literal_no_CR CR_notin_translate [of s] by blast

lemma patched_twice:
  "str_replace search_literal replacement_literal
     (translate_newlines (str_replace search_literal replacement_literal (translate_newlines s)))
   = str_replace search_literal replacement_literal (translate_newlines s)"
  by (simp add: translate_no_CR [OF no_CR_patched] str_replace_no_match [OF no_search_literal_left])

lemma translate_around_literal:
  assumes "CR \<notin> set pre"
  shows "translate_newlines (pre @ search_literal @ post)
    = pre @ search_literal @ translate_newlines post"
  using assms search_literal_no_newline(1)
  by (simp add: translate_append_left)

lemma two_occurrences:
  assumes "\<not> sublist search_literal x" "\<not> sublist search_literal y" "\<not> sublist search_literal z"
  shows "str_replace search_literal new (x @ search_literal @ y @ search_literal @ z)
    = x @ new @ y @ new @ z"
proof -
  have "str_replace search_literal new (y @ search_literal @ z) = y @ new @ z"
    using assms(2,3) by (simp add: str_replace_around_literal str_replace_no_match)
  then show ?thesis
    using assms(1) by (simp add: str_replace_around_literal [of new x] str_replace_no_match)
qed

lemma translate_literal_between:
  "translate_newlines (pre @ search_literal @ post)
    = translate_newlines pre @ search_literal @ translate_newlines post"
proof -
  have "hd (search_literal @ post) \<noteq> LF" by (simp add: search_literal_def)
  then have "translate_newlines (pre @ search_literal @ post)
    = translate_newlines pre @ translate_newlines (search_literal @ post)"
    using translate_append_not_LF [of "search_literal @ post" pre] by simp
  then show ?thesis
    using search_literal_no_newline(1) by (simp add: translate_append_left)
qed

lemma sublist_translate:
  "sublist search_literal (translate_newlines s) \<longleftrightarrow> sublist search_literal s"
  using occurrences_translate [OF search_literal_nonempty search_literal_no_newline, of s]
    occurrences_pos [OF search_literal_nonempty, of s]
    occurrences_pos [OF search_literal_nonempty, of "translate_newlines s"]
  by simp

lemma patched_around_literal:
  "str_replace search_literal replacement_literal
      (translate_newlines (pre @ search_literal @ post))
   = str_replace search_literal replacement_literal (translate_newlines pre)
     @ replacement_literal
     @ str_replace search_literal replacement_literal (translate_newlines post)"
  by (simp add: translate_literal_between str_replace_around_literal)

lemma length_patched_text:
  "length (str_replace search_literal replacement_literal (translate_newlines s))
     + 5 * occurrences search_literal s + crlf_pairs s = length s"
proof -
  let ?t = "translate_newlines s"
  have "length (str_replace search_literal replacement_literal ?t)
      + 5 * occurrences search_literal ?t = length ?t"
    by (rule length_patched)
  moreover have "occurrences search_literal ?t = occurrences search_literal s"
    using search_literal_nonempty search_literal_no_newline by (rule occurrences_translate)
  moreover have "length ?t + crlf_pairs s = length s"
    by (rule length_translate)
  ultimately show ?thesis by simp
qed

lemma literals_ascii:
  "\<forall>c \<in> set search_literal. ascii c" "\<forall>c \<in> set replacement_literal. ascii c"
  by (simp_all add: search_literal_def replacement_literal_def)

lemma utf8_valid_around_ascii:
  assumes "\<forall>c \<in> set m. ascii c" and "m \<noteq> []"
  shows "utf8_valid (p @ m @ r) \<longleftrightarrow> utf8_valid p \<and> utf8_valid r"
proof -
  from assms obtain a m' where m: "m = a # m'" by (cases m) auto
  with assms(1) have a: "ascii a" and m': "utf8_valid m'"
    by (simp_all add: utf8_valid_all_ascii)
  have "utf8_valid (p @ a # (m' @ r)) \<longleftrightarrow> utf8_valid p \<and> utf8_valid (m' @ r)"
    using a by (rule utf8_valid_at_ascii)
  with m m' show ?thesis by (simp add: utf8_valid_append del: utf8_valid.simps(2))
qed

lemma utf8_valid_str_replace:
  "utf8_valid s \<Longrightarrow> utf8_valid (str_replace search_literal replacement_literal s)"
proof (induction s rule: length_induct)
  case (1 s)
  show ?case
  proof (cases "sublist search_literal s")
    case False
    with 1(2) show ?thesis by (simp add: str_replace_no_match)
  next
    case True
    then obtain p r where s: "s = p @ search_literal @ r"
      and "\<not> sublist search_literal (p @ butlast search_literal)"
      using first_occurrence [OF search_literal_nonempty] by blast
    then have e: "str_replace search_literal replacement_literal s
        = p @ replacement_literal @ str_replace search_literal replacement_literal r"
      using str_replace_leftmost [OF search_literal_nonempty] by simp
    from 1(2) s have vp: "utf8_valid p" and vr: "utf8_valid r"
      using utf8_valid_around_ascii [OF literals_ascii(1) search_literal_nonempty] by simp_all
    have "length r < length s" using s search_literal_nonempty by simp
    with vr 1(1) have "utf8_valid (str_replace search_literal replacement_literal r)" by blast
    moreover have "replacement_literal \<noteq> []" by (simp add: replacement_literal_def)
    ultimately show ?thesis
      using e vp utf8_valid_around_ascii [OF literals_ascii(2)] by simp
  qed
qed

section \<open>Runs of the script\<close>

text \<open>
  A run ends normally exactly when the path names a regular file that may be read and
  written and holds well-formed UTF-8; the world it leaves differs from the initial one
  in the content of that file. A run that ends with an exception leaves the world as it
  was.
\<close>

lemma patch_run:
  assumes "files w p = Some (RegularFile f)" "readable f" "writable f" "utf8_valid (content f)"
  shows "patch_ordinals_api (a # p # rest) w =
    Inr (w\<lparr>files := (files w)(p \<mapsto> RegularFile (f\<lparr>content :=
      str_replace search_literal replacement_literal (translate_newlines (content f))\<rparr>))\<rparr>)"
  using assms
  by (simp add: patch_ordinals_api_def read_text_def write_text_def write_newlines_posix)

lemma patch_InrD:
  assumes "patch_ordinals_api argv w = Inr w'"
  shows "\<exists>a p rest f. argv = a # p # rest \<and> files w p = Some (RegularFile f)
    \<and> readable f \<and> writable f \<and> utf8_valid (content f)
    \<and> w' = w\<lparr>files := (files w)(p \<mapsto> RegularFile (f\<lparr>content :=
      str_replace search_literal replacement_literal (translate_newlines (content f))\<rparr>))\<rparr>"
  using assms
  by (auto simp: patch_ordinals_api_def read_text_def write_text_def write_newlines_posix Let_def
      split: list.splits option.splits node.splits sum.splits if_splits)

lemma same_file_written:
  assumes "files w p = Some (RegularFile f)"
  shows "w\<lparr>files := (files w)(p \<mapsto> RegularFile (f\<lparr>content := content f\<rparr>))\<rparr> = w"
proof -
  have "(files w)(p \<mapsto> RegularFile f) = files w"
    using assms by (rule map_upd_triv)
  then show ?thesis by simp
qed

lemma patch_InlD:
  assumes "patch_ordinals_api argv w = Inl (e, w')"
  shows "w' = w"
  using assms
  by (auto simp: patch_ordinals_api_def read_text_def write_text_def Let_def
      split: list.splits option.splits node.splits sum.splits if_splits)

lemma patch_fails:
  assumes "files w p = Some (RegularFile f)"
    and "\<not> (readable f \<and> writable f \<and> utf8_valid (content f))"
  shows "\<exists>e. patch_ordinals_api (a # p # rest) w = Inl (e, w)"
  using assms
  by (auto simp: patch_ordinals_api_def read_text_def write_text_def Let_def)

text \<open>
  The output of a run is well-formed again and holds neither a carriage return nor the
  search literal, so a second run finds nothing to change.
\<close>

lemma second_run:
  assumes "files w p = Some (RegularFile f)" and "readable f" and "writable f"
    and "utf8_valid (content f)"
  shows "\<exists>w1. patch_ordinals_api (a # p # rest) w = Inr w1
    \<and> patch_ordinals_api (a # p # rest) w1 = Inr w1"
proof -
  let ?c = "str_replace search_literal replacement_literal (translate_newlines (content f))"
  let ?f = "f\<lparr>content := ?c\<rparr>"
  let ?w = "w\<lparr>files := (files w)(p \<mapsto> RegularFile ?f)\<rparr>"
  have first: "patch_ordinals_api (a # p # rest) w = Inr ?w"
    using assms by (rule patch_run)
  have "utf8_valid ?c"
    using assms(4) by (intro utf8_valid_str_replace utf8_valid_translate)
  then have target: "files ?w p = Some (RegularFile ?f)" "readable ?f" "writable ?f"
    "utf8_valid (content ?f)"
    using assms(2,3) by simp_all
  have "str_replace search_literal replacement_literal (translate_newlines (content ?f))
      = content ?f"
    using patched_twice [of "content f"] by simp
  with patch_run [OF target, of a rest] same_file_written [OF target(1)]
  have "patch_ordinals_api (a # p # rest) ?w = Inr ?w" by simp
  with first show ?thesis by blast
qed

text \<open>
  A file that begins with the byte \<open>0xFF\<close> is not well-formed: the read raises, and the
  literal behind that byte stays.
\<close>

lemma undecodable_file_untouched:
  "patch_ordinals_api [''patch_ordinals_api.py'', ''constants.ts'']
      \<lparr>files = [''constants.ts'' \<mapsto> RegularFile
          \<lparr>content = [CHR 0xFF] @ search_literal, readable = True, writable = True\<rparr>],
       stdout = [], stderr = []\<rparr>
    = Inl (UnicodeDecodeError,
       \<lparr>files = [''constants.ts'' \<mapsto> RegularFile
          \<lparr>content = [CHR 0xFF] @ search_literal, readable = True, writable = True\<rparr>],
       stdout = [], stderr = []\<rparr>)"
  by (simp add: patch_ordinals_api_def read_text_def search_literal_def well_formed_utf8_def)

section \<open>The claims\<close>

subsection \<open>C1: every occurrence is replaced\<close>

text \<open>
  Claim C1, as amended. For every readable and writable file that holds well-formed
  UTF-8, a run of the patcher on its path ends normally and leaves the file holding the
  text as read in text mode (the line endings \<^verbatim>\<open>\r\n\<close> and \<^verbatim>\<open>\r\<close> read as \<^verbatim>\<open>\n\<close>)
  with every non-overlapping occurrence of the search literal replaced, left to right,
  by the replacement literal. For a content without carriage return that is the original
  content with every occurrence replaced; in particular two occurrences are both
  replaced.
\<close>

theorem patcher_replaces_every_occurrence:
  assumes "files w p = Some (RegularFile f)" and "readable f" and "writable f"
    and "utf8_valid (content f)"
  shows "\<exists>w' f'. patch_ordinals_api (a # p # rest) w = Inr w'
    \<and> files w' p = Some (RegularFile f')
    \<and> replaced_all search_literal replacement_literal
          (translate_newlines (content f)) (content f')
    \<and> (CR \<notin> set (content f) \<longrightarrow>
          replaced_all search_literal replacement_literal (content f) (content f'))
    \<and> (\<forall>x y z. CR \<notin> set (content f)
          \<and> content f = x @ search_literal @ y @ search_literal @ z
          \<and> \<not> sublist search_literal x \<and> \<not> sublist search_literal y
          \<and> \<not> sublist search_literal z
          \<longrightarrow> content f' = x @ replacement_literal @ y @ replacement_literal @ z)"
proof -
  let ?c = "str_replace search_literal replacement_literal (translate_newlines (content f))"
  let ?f = "f\<lparr>content := ?c\<rparr>"
  let ?w = "w\<lparr>files := (files w)(p \<mapsto> RegularFile ?f)\<rparr>"
  have run: "patch_ordinals_api (a # p # rest) w = Inr ?w"
    using assms by (rule patch_run)
  have target: "files ?w p = Some (RegularFile ?f)" by simp
  have r1: "replaced_all search_literal replacement_literal (translate_newlines (content f)) (content ?f)"
    using replaced_all_str_replace [OF search_literal_nonempty] by simp
  have r2: "CR \<notin> set (content f) \<longrightarrow>
      replaced_all search_literal replacement_literal (content f) (content ?f)"
    using replaced_all_str_replace [OF search_literal_nonempty, of replacement_literal "content f"]
    by (simp add: translate_no_CR)
  have r3: "\<forall>x y z. CR \<notin> set (content f)
          \<and> content f = x @ search_literal @ y @ search_literal @ z
          \<and> \<not> sublist search_literal x \<and> \<not> sublist search_literal y
          \<and> \<not> sublist search_literal z
          \<longrightarrow> content ?f = x @ replacement_literal @ y @ replacement_literal @ z"
  proof (intro allI impI, elim conjE)
    fix x y z
    assume "CR \<notin> set (content f)"
      and c: "content f = x @ search_literal @ y @ search_literal @ z"
      and "\<not> sublist search_literal x" "\<not> sublist search_literal y"
        "\<not> sublist search_literal z"
    then show "content ?f = x @ replacement_literal @ y @ replacement_literal @ z"
      using two_occurrences [of x y z replacement_literal]
        translate_no_CR [of "content f"] by simp
  qed
  from run target r1 r2 r3 show ?thesis by blast
qed

text \<open>The theorem at a file of two lines, each the search literal.\<close>

theorem patcher_replaces_every_occurrence_witness:
  "files \<lparr>files = [''constants.ts'' \<mapsto> RegularFile
        \<lparr>content = search_literal @ [LF] @ search_literal @ [LF],
         readable = True, writable = True\<rparr>], stdout = [], stderr = []\<rparr> ''constants.ts''
     = Some (RegularFile \<lparr>content = search_literal @ [LF] @ search_literal @ [LF],
         readable = True, writable = True\<rparr>)
   \<and> utf8_valid (search_literal @ [LF] @ search_literal @ [LF])
   \<and> (\<exists>w' f'. patch_ordinals_api [''patch_ordinals_api.py'', ''constants.ts'']
        \<lparr>files = [''constants.ts'' \<mapsto> RegularFile
          \<lparr>content = search_literal @ [LF] @ search_literal @ [LF],
           readable = True, writable = True\<rparr>], stdout = [], stderr = []\<rparr> = Inr w'
      \<and> files w' ''constants.ts'' = Some (RegularFile f')
      \<and> replaced_all search_literal replacement_literal
           (search_literal @ [LF] @ search_literal @ [LF]) (content f')
      \<and> content f' = replacement_literal @ [LF] @ replacement_literal @ [LF])"
proof -
  let ?f = "\<lparr>content = search_literal @ [LF] @ search_literal @ [LF],
         readable = True, writable = True\<rparr>"
  let ?w = "\<lparr>files = [''constants.ts'' \<mapsto> RegularFile ?f], stdout = [], stderr = []\<rparr>"
  have h: "files ?w ''constants.ts'' = Some (RegularFile ?f)" "readable ?f" "writable ?f"
    "utf8_valid (content ?f)"
    by (simp_all add: search_literal_def well_formed_utf8_def)
  have n: "CR \<notin> set (content ?f)" "\<not> sublist search_literal []"
    "\<not> sublist search_literal [LF]"
    by (simp_all add: search_literal_def sublist_Cons_right)
  from patcher_replaces_every_occurrence [OF h, of "''patch_ordinals_api.py''" "[]"]
  obtain w' f' where r: "patch_ordinals_api [''patch_ordinals_api.py'', ''constants.ts''] ?w = Inr w'"
    "files w' ''constants.ts'' = Some (RegularFile f')"
    "CR \<notin> set (content ?f) \<longrightarrow>
          replaced_all search_literal replacement_literal (content ?f) (content f')"
    "\<forall>x y z. CR \<notin> set (content ?f)
          \<and> content ?f = x @ search_literal @ y @ search_literal @ z
          \<and> \<not> sublist search_literal x \<and> \<not> sublist search_literal y
          \<and> \<not> sublist search_literal z
          \<longrightarrow> content f' = x @ replacement_literal @ y @ replacement_literal @ z"
    by blast
  from r(3) n(1) have a: "replaced_all search_literal replacement_literal
           (search_literal @ [LF] @ search_literal @ [LF]) (content f')" by simp
  have c: "content f' = [] @ replacement_literal @ [LF] @ replacement_literal @ [LF]"
  proof (rule r(4) [rule_format])
    show "CR \<notin> set (content ?f)
      \<and> content ?f = [] @ search_literal @ [LF] @ search_literal @ [LF]
      \<and> \<not> sublist search_literal [] \<and> \<not> sublist search_literal [LF]
      \<and> \<not> sublist search_literal [LF]"
      using n by simp
  qed
  show ?thesis
  proof (intro conjI exI)
    show "patch_ordinals_api [''patch_ordinals_api.py'', ''constants.ts''] ?w = Inr w'"
      by (rule r(1))
    show "files w' ''constants.ts'' = Some (RegularFile f')" by (rule r(2))
    show "replaced_all search_literal replacement_literal
           (search_literal @ [LF] @ search_literal @ [LF]) (content f')" by (rule a)
    show "content f' = replacement_literal @ [LF] @ replacement_literal @ [LF]"
      using c by simp
    show "files ?w ''constants.ts'' = Some (RegularFile ?f)" by (rule h(1))
    show "utf8_valid (search_literal @ [LF] @ search_literal @ [LF])"
      using h(4) by simp
  qed
qed

text \<open>
  C1 as stated fails on a file whose line ends in \<^verbatim>\<open>\r\n\<close>: the run leaves the
  replacement literal followed by \<^verbatim>\<open>\n\<close> alone, which is not the original content with
  its occurrences replaced.
\<close>

theorem patcher_replaces_every_occurrence_counterexample:
  "patch_ordinals_api [''patch_ordinals_api.py'', ''constants.ts'']
      \<lparr>files = [''constants.ts'' \<mapsto> RegularFile
          \<lparr>content = search_literal @ [CR, LF], readable = True, writable = True\<rparr>],
       stdout = [], stderr = []\<rparr>
    = Inr \<lparr>files = [''constants.ts'' \<mapsto> RegularFile
          \<lparr>content = replacement_literal @ [LF], readable = True, writable = True\<rparr>],
       stdout = [], stderr = []\<rparr>
   \<and> \<not> replaced_all search_literal replacement_literal
         (search_literal @ [CR, LF]) (replacement_literal @ [LF])"
proof
  show "patch_ordinals_api [''patch_ordinals_api.py'', ''constants.ts'']
      \<lparr>files = [''constants.ts'' \<mapsto> RegularFile
          \<lparr>content = search_literal @ [CR, LF], readable = True, writable = True\<rparr>],
       stdout = [], stderr = []\<rparr>
    = Inr \<lparr>files = [''constants.ts'' \<mapsto> RegularFile
          \<lparr>content = replacement_literal @ [LF], readable = True, writable = True\<rparr>],
       stdout = [], stderr = []\<rparr>"
    by (simp add: patch_ordinals_api_def read_text_def write_text_def write_newlines_posix
        search_literal_def replacement_literal_def well_formed_utf8_def)
  show "\<not> replaced_all search_literal replacement_literal
         (search_literal @ [CR, LF]) (replacement_literal @ [LF])"
  proof
    assume "replaced_all search_literal replacement_literal
         (search_literal @ [CR, LF]) (replacement_literal @ [LF])"
    from replaced_all_unique [OF search_literal_nonempty this]
    show False by (simp add: search_literal_def replacement_literal_def)
  qed
qed

subsection \<open>C2: the replacement stands where the literal stood\<close>

text \<open>
  Claim C2, as amended. For every readable and writable file that holds well-formed
  UTF-8, a run of the patcher ends normally and no occurrence of the search literal
  remains anywhere in the content, whatever the content was. Where the content held the
  search literal, with no earlier occurrence and no \<^verbatim>\<open>\r\n\<close> pair in the text before
  it, the content then holds the replacement literal at the same position (a carriage
  return alone before it does not matter). In general the replacement literal stands at
  that position moved to the left by five for every earlier occurrence and by one for
  every \<^verbatim>\<open>\r\n\<close> pair before it.
\<close>

theorem replacement_at_same_position:
  assumes "files w p = Some (RegularFile f)" and "readable f" and "writable f"
    and "utf8_valid (content f)"
  shows "\<exists>w' f'. patch_ordinals_api (a # p # rest) w = Inr w'
    \<and> files w' p = Some (RegularFile f')
    \<and> \<not> sublist search_literal (content f')
    \<and> (\<forall>pre post. content f = pre @ search_literal @ post
          \<and> \<not> sublist search_literal pre \<and> crlf_pairs pre = 0
          \<longrightarrow> occurs_at replacement_literal (content f') (length pre))
    \<and> (\<forall>pre post. content f = pre @ search_literal @ post
          \<longrightarrow> (\<exists>i. occurs_at replacement_literal (content f') i
                \<and> i + 5 * occurrences search_literal pre + crlf_pairs pre = length pre))"
proof -
  let ?R = "str_replace search_literal replacement_literal"
  let ?c = "?R (translate_newlines (content f))"
  let ?f = "f\<lparr>content := ?c\<rparr>"
  let ?w = "w\<lparr>files := (files w)(p \<mapsto> RegularFile ?f)\<rparr>"
  have run: "patch_ordinals_api (a # p # rest) w = Inr ?w"
    using assms by (rule patch_run)
  have target: "files ?w p = Some (RegularFile ?f)" by simp
  have gone: "\<not> sublist search_literal (content ?f)"
    using no_search_literal_left by simp
  have general: "\<forall>pre post. content f = pre @ search_literal @ post
          \<longrightarrow> (\<exists>i. occurs_at replacement_literal (content ?f) i
                \<and> i + 5 * occurrences search_literal pre + crlf_pairs pre = length pre)"
  proof (intro allI impI)
    fix pre post
    assume c: "content f = pre @ search_literal @ post"
    let ?i = "length (?R (translate_newlines pre))"
    have "?c = ?R (translate_newlines pre) @ replacement_literal @ ?R (translate_newlines post)"
      using c by (simp add: patched_around_literal)
    then have "occurs_at replacement_literal (content ?f) ?i"
      by (simp add: occurs_at_def)
    moreover have "?i + 5 * occurrences search_literal pre + crlf_pairs pre = length pre"
      by (rule length_patched_text)
    ultimately show "\<exists>i. occurs_at replacement_literal (content ?f) i
                \<and> i + 5 * occurrences search_literal pre + crlf_pairs pre = length pre"
      by blast
  qed
  have same: "\<forall>pre post. content f = pre @ search_literal @ post
          \<and> \<not> sublist search_literal pre \<and> crlf_pairs pre = 0
          \<longrightarrow> occurs_at replacement_literal (content ?f) (length pre)"
  proof (intro allI impI, elim conjE)
    fix pre post
    assume c: "content f = pre @ search_literal @ post"
      and n: "\<not> sublist search_literal pre" and z: "crlf_pairs pre = 0"
    from general c obtain i where i: "occurs_at replacement_literal (content ?f) i"
      "i + 5 * occurrences search_literal pre + crlf_pairs pre = length pre" by blast
    from n have "occurrences search_literal pre = 0"
      using occurrences_pos [OF search_literal_nonempty, of pre] by simp
    with i z show "occurs_at replacement_literal (content ?f) (length pre)" by simp
  qed
  from run target gone same general show ?thesis by blast
qed

text \<open>
  The theorem at a file whose first line ends in a carriage return alone, with the
  literal behind it.
\<close>

theorem replacement_at_same_position_witness:
  "files \<lparr>files = [''constants.ts'' \<mapsto> RegularFile
        \<lparr>content = (''// genesis'' @ [CR]) @ search_literal @ [CR, LF],
         readable = True, writable = True\<rparr>], stdout = [], stderr = []\<rparr> ''constants.ts''
     = Some (RegularFile \<lparr>content = (''// genesis'' @ [CR]) @ search_literal @ [CR, LF],
         readable = True, writable = True\<rparr>)
   \<and> utf8_valid ((''// genesis'' @ [CR]) @ search_literal @ [CR, LF])
   \<and> \<not> sublist search_literal (''// genesis'' @ [CR])
   \<and> crlf_pairs (''// genesis'' @ [CR]) = 0
   \<and> (\<exists>w' f'. patch_ordinals_api [''patch_ordinals_api.py'', ''constants.ts'']
        \<lparr>files = [''constants.ts'' \<mapsto> RegularFile
          \<lparr>content = (''// genesis'' @ [CR]) @ search_literal @ [CR, LF],
           readable = True, writable = True\<rparr>], stdout = [], stderr = []\<rparr> = Inr w'
      \<and> files w' ''constants.ts'' = Some (RegularFile f')
      \<and> \<not> sublist search_literal (content f')
      \<and> occurs_at replacement_literal (content f') (length (''// genesis'' @ [CR])))"
proof -
  let ?pre = "''// genesis'' @ [CR]"
  let ?f = "\<lparr>content = ?pre @ search_literal @ [CR, LF],
         readable = True, writable = True\<rparr>"
  let ?w = "\<lparr>files = [''constants.ts'' \<mapsto> RegularFile ?f], stdout = [], stderr = []\<rparr>"
  have h: "files ?w ''constants.ts'' = Some (RegularFile ?f)" "readable ?f" "writable ?f"
    "utf8_valid (content ?f)"
    by (simp_all add: search_literal_def well_formed_utf8_def)
  have n: "\<not> sublist search_literal ?pre" "crlf_pairs ?pre = 0"
    by (simp_all add: search_literal_def sublist_Cons_right)
  from replacement_at_same_position [OF h, of "''patch_ordinals_api.py''" "[]"]
  obtain w' f' where r: "patch_ordinals_api [''patch_ordinals_api.py'', ''constants.ts''] ?w = Inr w'"
    "files w' ''constants.ts'' = Some (RegularFile f')"
    "\<not> sublist search_literal (content f')"
    "\<forall>pre post. content ?f = pre @ search_literal @ post
          \<and> \<not> sublist search_literal pre \<and> crlf_pairs pre = 0
          \<longrightarrow> occurs_at replacement_literal (content f') (length pre)"
    by blast
  have o: "occurs_at replacement_literal (content f') (length ?pre)"
  proof (rule r(4) [rule_format])
    show "content ?f = ?pre @ search_literal @ [CR, LF]
      \<and> \<not> sublist search_literal ?pre \<and> crlf_pairs ?pre = 0"
      using n by simp
  qed
  show ?thesis
  proof (intro conjI exI)
    show "patch_ordinals_api [''patch_ordinals_api.py'', ''constants.ts''] ?w = Inr w'"
      by (rule r(1))
    show "files w' ''constants.ts'' = Some (RegularFile f')" by (rule r(2))
    show "\<not> sublist search_literal (content f')" by (rule r(3))
    show "occurs_at replacement_literal (content f') (length ?pre)" by (rule o)
    show "files ?w ''constants.ts'' = Some (RegularFile ?f)" by (rule h(1))
    show "utf8_valid (?pre @ search_literal @ [CR, LF])" using h(4) by simp
    show "\<not> sublist search_literal ?pre" by (rule n(1))
    show "crlf_pairs ?pre = 0" by (rule n(2))
  qed
qed

text \<open>
  C2 as stated fails on a file that begins with an empty line ended by \<^verbatim>\<open>\r\n\<close>: the
  literal stands at position 2 before the run, and after it the replacement stands at
  position 1, not at position 2.
\<close>

theorem replacement_at_same_position_counterexample:
  "patch_ordinals_api [''patch_ordinals_api.py'', ''constants.ts'']
      \<lparr>files = [''constants.ts'' \<mapsto> RegularFile
          \<lparr>content = [CR, LF] @ search_literal, readable = True, writable = True\<rparr>],
       stdout = [], stderr = []\<rparr>
    = Inr \<lparr>files = [''constants.ts'' \<mapsto> RegularFile
          \<lparr>content = [LF] @ replacement_literal, readable = True, writable = True\<rparr>],
       stdout = [], stderr = []\<rparr>
   \<and> occurs_at search_literal ([CR, LF] @ search_literal) 2
   \<and> \<not> occurs_at replacement_literal ([LF] @ replacement_literal) 2"
  by (simp add: patch_ordinals_api_def read_text_def write_text_def write_newlines_posix
        occurs_at_def search_literal_def replacement_literal_def well_formed_utf8_def)

subsection \<open>C3: a file without the literal\<close>




subsection \<open>C4: the text around the literal\<close>

text \<open>
  Claim C4, as amended. For every readable and writable file that holds well-formed
  UTF-8 whose content has no carriage return and is some text, the search literal, and
  some text, a run of the patcher ends normally and alters only the spans that match the
  search literal: the content before and the content after the run are the same parts,
  in the same order, none of them holding the literal, joined by the search literal
  before and by the replacement literal after. When the text before and the text after
  hold no further occurrence, the new content is that text before, the replacement
  literal, and that text after.
\<close>

theorem only_literal_spans_change:
  assumes "files w p = Some (RegularFile f)" and "readable f" and "writable f"
    and "utf8_valid (content f)"
    and "content f = pre @ search_literal @ post" and "CR \<notin> set (content f)"
  shows "\<exists>w' f' ps. patch_ordinals_api (a # p # rest) w = Inr w'
    \<and> files w' p = Some (RegularFile f')
    \<and> content f = join search_literal ps
    \<and> content f' = join replacement_literal ps
    \<and> (\<forall>x \<in> set ps. \<not> sublist search_literal x) \<and> 2 \<le> length ps
    \<and> (\<not> sublist search_literal pre \<and> \<not> sublist search_literal post
          \<longrightarrow> content f' = pre @ replacement_literal @ post)"
proof -
  let ?c = "str_replace search_literal replacement_literal (translate_newlines (content f))"
  let ?f = "f\<lparr>content := ?c\<rparr>"
  let ?w = "w\<lparr>files := (files w)(p \<mapsto> RegularFile ?f)\<rparr>"
  have run: "patch_ordinals_api (a # p # rest) w = Inr ?w"
    using assms(1-4) by (rule patch_run)
  have target: "files ?w p = Some (RegularFile ?f)" by simp
  have c: "?c = str_replace search_literal replacement_literal (content f)"
    using assms(6) by (simp add: translate_no_CR)
  obtain ps where ps: "content f = join search_literal ps"
    "str_replace search_literal replacement_literal (content f) = join replacement_literal ps"
    "\<forall>x \<in> set ps. \<not> sublist search_literal x" "ps \<noteq> []"
    using pieces [OF search_literal_nonempty, of "content f" replacement_literal] by blast
  have two: "2 \<le> length ps"
  proof (cases ps)
    case Nil
    with ps(4) show ?thesis by simp
  next
    case (Cons q qs)
    show ?thesis
    proof (cases qs)
      case Nil
      with Cons ps(1,3) have "\<not> sublist search_literal (content f)" by simp
      moreover have "sublist search_literal (pre @ search_literal @ post)"
        by (rule sublist_appendI)
      ultimately show ?thesis using assms(5) by simp
    next
      case (Cons r rs)
      with \<open>ps = q # qs\<close> show ?thesis by simp
    qed
  qed
  have around: "\<not> sublist search_literal pre \<and> \<not> sublist search_literal post
          \<longrightarrow> content ?f = pre @ replacement_literal @ post"
    using c assms(5) by (simp add: str_replace_around_literal str_replace_no_match)
  from ps(1) ps(2) c have j: "content f = join search_literal ps"
    "content ?f = join replacement_literal ps" by simp_all
  from run target j ps(3) two around show ?thesis by blast
qed

text \<open>
  The theorem at a file with a comment line before the literal; the comment holds a
  character of two bytes.
\<close>

theorem only_literal_spans_change_witness:
  "files \<lparr>files = [''constants.ts'' \<mapsto> RegularFile
        \<lparr>content = (''// gen'' @ [CHR 0xC3, CHR 0xA8] @ ''se'' @ [LF]) @ search_literal @ [LF],
         readable = True, writable = True\<rparr>], stdout = [], stderr = []\<rparr> ''constants.ts''
     = Some (RegularFile
        \<lparr>content = (''// gen'' @ [CHR 0xC3, CHR 0xA8] @ ''se'' @ [LF]) @ search_literal @ [LF],
         readable = True, writable = True\<rparr>)
   \<and> utf8_valid ((''// gen'' @ [CHR 0xC3, CHR 0xA8] @ ''se'' @ [LF]) @ search_literal @ [LF])
   \<and> CR \<notin> set ((''// gen'' @ [CHR 0xC3, CHR 0xA8] @ ''se'' @ [LF]) @ search_literal @ [LF])
   \<and> \<not> sublist search_literal (''// gen'' @ [CHR 0xC3, CHR 0xA8] @ ''se'' @ [LF])
   \<and> \<not> sublist search_literal [LF]
   \<and> (\<exists>w' f'. patch_ordinals_api [''patch_ordinals_api.py'', ''constants.ts'']
        \<lparr>files = [''constants.ts'' \<mapsto> RegularFile
          \<lparr>content = (''// gen'' @ [CHR 0xC3, CHR 0xA8] @ ''se'' @ [LF]) @ search_literal @ [LF],
           readable = True, writable = True\<rparr>], stdout = [], stderr = []\<rparr> = Inr w'
      \<and> files w' ''constants.ts'' = Some (RegularFile f')
      \<and> content f'
          = (''// gen'' @ [CHR 0xC3, CHR 0xA8] @ ''se'' @ [LF]) @ replacement_literal @ [LF])"
proof -
  let ?pre = "''// gen'' @ [CHR 0xC3, CHR 0xA8] @ ''se'' @ [LF]"
  let ?f = "\<lparr>content = ?pre @ search_literal @ [LF], readable = True, writable = True\<rparr>"
  let ?w = "\<lparr>files = [''constants.ts'' \<mapsto> RegularFile ?f], stdout = [], stderr = []\<rparr>"
  have h: "files ?w ''constants.ts'' = Some (RegularFile ?f)" "readable ?f" "writable ?f"
    "utf8_valid (content ?f)"
    "content ?f = ?pre @ search_literal @ [LF]"
    "CR \<notin> set (content ?f)"
    by (simp_all add: search_literal_def well_formed_utf8_def)
  have n: "\<not> sublist search_literal ?pre" "\<not> sublist search_literal [LF]"
    by (simp_all add: search_literal_def sublist_Cons_right)
  from only_literal_spans_change [OF h, of "''patch_ordinals_api.py''" "[]"]
  obtain w' f' where r: "patch_ordinals_api [''patch_ordinals_api.py'', ''constants.ts''] ?w = Inr w'"
    "files w' ''constants.ts'' = Some (RegularFile f')"
    "\<not> sublist search_literal ?pre \<and> \<not> sublist search_literal [LF]
          \<longrightarrow> content f' = ?pre @ replacement_literal @ [LF]"
    by blast
  from r(3) n have c: "content f' = ?pre @ replacement_literal @ [LF]"
    by blast
  show ?thesis
  proof (intro conjI exI)
    show "patch_ordinals_api [''patch_ordinals_api.py'', ''constants.ts''] ?w = Inr w'"
      by (rule r(1))
    show "files w' ''constants.ts'' = Some (RegularFile f')" by (rule r(2))
    show "content f' = ?pre @ replacement_literal @ [LF]" by (rule c)
    show "files ?w ''constants.ts'' = Some (RegularFile ?f)" by (rule h(1))
    show "utf8_valid (?pre @ search_literal @ [LF])" using h(4) by simp
    show "CR \<notin> set (?pre @ search_literal @ [LF])" using h(6) by simp
    show "\<not> sublist search_literal ?pre" by (rule n(1))
    show "\<not> sublist search_literal [LF]" by (rule n(2))
  qed
qed

text \<open>
  C4 as stated fails on a file with \<^verbatim>\<open>\r\n\<close> line endings: the text before and the
  text after the literal hold no occurrence, and yet both come out changed, their
  \<^verbatim>\<open>\r\n\<close> written as \<^verbatim>\<open>\n\<close>.
\<close>

theorem only_literal_spans_change_counterexample:
  "\<not> sublist search_literal (''// genesis'' @ [CR, LF]) \<and> \<not> sublist search_literal [CR, LF]
   \<and> patch_ordinals_api [''patch_ordinals_api.py'', ''constants.ts'']
      \<lparr>files = [''constants.ts'' \<mapsto> RegularFile
          \<lparr>content = (''// genesis'' @ [CR, LF]) @ search_literal @ [CR, LF],
           readable = True, writable = True\<rparr>],
       stdout = [], stderr = []\<rparr>
    = Inr \<lparr>files = [''constants.ts'' \<mapsto> RegularFile
          \<lparr>content = (''// genesis'' @ [LF]) @ replacement_literal @ [LF],
           readable = True, writable = True\<rparr>],
       stdout = [], stderr = []\<rparr>
   \<and> (''// genesis'' @ [LF]) @ replacement_literal @ [LF]
       \<noteq> (''// genesis'' @ [CR, LF]) @ replacement_literal @ [CR, LF]"
  by (simp add: patch_ordinals_api_def read_text_def write_text_def write_newlines_posix
        search_literal_def replacement_literal_def sublist_Cons_right well_formed_utf8_def)

subsection \<open>C5: idempotence\<close>

text \<open>
  Claim C5. For every argument list and every world, the world that two runs of the
  patcher in succession leave is the world that one run leaves. For a readable and
  writable file that holds well-formed UTF-8 the first run ends normally, and the second
  run on the world that the first one left ends normally too and changes nothing.
\<close>

theorem patcher_idempotent:
  "final_world (patch_ordinals_api argv (final_world (patch_ordinals_api argv w)))
     = final_world (patch_ordinals_api argv w)
   \<and> (files w p = Some (RegularFile f) \<and> readable f \<and> writable f \<and> utf8_valid (content f)
        \<longrightarrow> (\<exists>w1. patch_ordinals_api (a # p # rest) w = Inr w1
              \<and> patch_ordinals_api (a # p # rest) w1 = Inr w1))"
proof
  show "final_world (patch_ordinals_api argv (final_world (patch_ordinals_api argv w)))
     = final_world (patch_ordinals_api argv w)"
  proof (cases "patch_ordinals_api argv w")
    case (Inl ew)
    then obtain e w' where "patch_ordinals_api argv w = Inl (e, w')" by (cases ew) auto
    with patch_InlD [OF this] have "patch_ordinals_api argv w = Inl (e, w)" by simp
    then show ?thesis by (simp add: final_world_def)
  next
    case (Inr w1)
    from patch_InrD [OF this] obtain a' p' rest' f' where argv: "argv = a' # p' # rest'"
      and ok: "files w p' = Some (RegularFile f')" "readable f'" "writable f'"
        "utf8_valid (content f')" by blast
    from second_run [OF ok, of a' rest'] Inr argv
    have "patch_ordinals_api argv w1 = Inr w1" by simp
    with Inr show ?thesis by (simp add: final_world_def)
  qed
  show "files w p = Some (RegularFile f) \<and> readable f \<and> writable f \<and> utf8_valid (content f)
        \<longrightarrow> (\<exists>w1. patch_ordinals_api (a # p # rest) w = Inr w1
              \<and> patch_ordinals_api (a # p # rest) w1 = Inr w1)"
    using second_run by blast
qed

text \<open>The theorem at a file holding the literal and a \<^verbatim>\<open>\r\n\<close> line ending.\<close>

theorem patcher_idempotent_witness:
  "files \<lparr>files = [''constants.ts'' \<mapsto> RegularFile
        \<lparr>content = search_literal @ [CR, LF],
         readable = True, writable = True\<rparr>], stdout = [], stderr = []\<rparr> ''constants.ts''
     = Some (RegularFile \<lparr>content = search_literal @ [CR, LF],
         readable = True, writable = True\<rparr>)
   \<and> utf8_valid (search_literal @ [CR, LF])
   \<and> (\<exists>w1. patch_ordinals_api [''patch_ordinals_api.py'', ''constants.ts'']
        \<lparr>files = [''constants.ts'' \<mapsto> RegularFile
          \<lparr>content = search_literal @ [CR, LF],
           readable = True, writable = True\<rparr>], stdout = [], stderr = []\<rparr> = Inr w1
      \<and> patch_ordinals_api [''patch_ordinals_api.py'', ''constants.ts''] w1 = Inr w1)"
proof -
  let ?f = "\<lparr>content = search_literal @ [CR, LF], readable = True, writable = True\<rparr>"
  let ?w = "\<lparr>files = [''constants.ts'' \<mapsto> RegularFile ?f], stdout = [], stderr = []\<rparr>"
  have h: "files ?w ''constants.ts'' = Some (RegularFile ?f) \<and> readable ?f \<and> writable ?f
    \<and> utf8_valid (content ?f)"
    by (simp add: search_literal_def well_formed_utf8_def)
  from patcher_idempotent [of "[]" ?w "''constants.ts''" ?f "''patch_ordinals_api.py''" "[]"] h
  have "\<exists>w1. patch_ordinals_api [''patch_ordinals_api.py'', ''constants.ts''] ?w = Inr w1
      \<and> patch_ordinals_api [''patch_ordinals_api.py'', ''constants.ts''] w1 = Inr w1"
    by blast
  with h show ?thesis by simp
qed

subsection \<open>C6: a path that does not exist\<close>

text \<open>
  Claim C6. For every path that names nothing, a run of the patcher on that path ends with
  \<^verbatim>\<open>FileNotFoundError\<close>, a file-access error, raised by the first \<^verbatim>\<open>open\<close>, and the
  world is as it was: no file is created at the path.
\<close>

theorem missing_file_error:
  assumes "files w p = None"
  shows "patch_ordinals_api (a # p # rest) w = Inl (FileNotFoundError, w)"
  using assms by (simp add: patch_ordinals_api_def read_text_def)

text \<open>The theorem in a world without files.\<close>

theorem missing_file_error_witness:
  "files \<lparr>files = Map.empty, stdout = [], stderr = []\<rparr> ''constants.ts'' = None
   \<and> patch_ordinals_api [''patch_ordinals_api.py'', ''constants.ts'']
        \<lparr>files = Map.empty, stdout = [], stderr = []\<rparr>
     = Inl (FileNotFoundError, \<lparr>files = Map.empty, stdout = [], stderr = []\<rparr>)"
proof -
  have h: "files \<lparr>files = Map.empty, stdout = [], stderr = []\<rparr> ''constants.ts'' = None"
    by simp
  from missing_file_error [OF h, of "''patch_ordinals_api.py''" "[]"] h
  show ?thesis by simp
qed

subsection \<open>C7: no path argument\<close>

text \<open>
  Claim C7. When the argument list has no path (fewer than two entries), a run of the
  patcher ends with \<^verbatim>\<open>IndexError\<close>, the missing-argument error, whatever the world is,
  and leaves the world as it was: the error does not depend on any file, and no file is
  written.
\<close>

theorem missing_argument_error:
  assumes "length argv < 2"
  shows "patch_ordinals_api argv w = Inl (IndexError, w)"
proof (cases argv)
  case Nil
  then show ?thesis by (simp add: patch_ordinals_api_def)
next
  case (Cons a as)
  with assms have "as = []" by simp
  with Cons show ?thesis by (simp add: patch_ordinals_api_def)
qed

text \<open>The theorem at the argument list that holds the script's name alone.\<close>

theorem missing_argument_error_witness:
  "length [''patch_ordinals_api.py''] < 2
   \<and> patch_ordinals_api [''patch_ordinals_api.py'']
        \<lparr>files = [''constants.ts'' \<mapsto> RegularFile
          \<lparr>content = search_literal, readable = True, writable = True\<rparr>],
         stdout = [], stderr = []\<rparr>
     = Inl (IndexError, \<lparr>files = [''constants.ts'' \<mapsto> RegularFile
          \<lparr>content = search_literal, readable = True, writable = True\<rparr>],
         stdout = [], stderr = []\<rparr>)"
proof -
  have h: "length [''patch_ordinals_api.py''] < 2" by simp
  from missing_argument_error [OF h] h show ?thesis by simp
qed

subsection \<open>C8: nothing but the target file changes\<close>

text \<open>
  Claim C8. After a run of the patcher that ends normally, the standard output and the
  standard error of the process are as they were, every path other than the target names
  what it named before, and the target is still a regular file with the permissions it
  had: the only effect is the new content of the target file.
\<close>

theorem only_target_file_changes:
  assumes "patch_ordinals_api (a # p # rest) w = Inr w'"
  shows "stdout w' = stdout w \<and> stderr w' = stderr w
    \<and> (\<forall>q. q \<noteq> p \<longrightarrow> files w' q = files w q)
    \<and> (\<exists>f f'. files w p = Some (RegularFile f) \<and> files w' p = Some (RegularFile f')
          \<and> readable f' = readable f \<and> writable f' = writable f)"
proof -
  from patch_InrD [OF assms] obtain f where f: "files w p = Some (RegularFile f)"
    and w': "w' = w\<lparr>files := (files w)(p \<mapsto> RegularFile (f\<lparr>content :=
      str_replace search_literal replacement_literal (translate_newlines (content f))\<rparr>))\<rparr>"
    by auto
  from w' have "stdout w' = stdout w" "stderr w' = stderr w"
    "\<forall>q. q \<noteq> p \<longrightarrow> files w' q = files w q" by simp_all
  moreover from f w' have "\<exists>f f'. files w p = Some (RegularFile f)
      \<and> files w' p = Some (RegularFile f')
      \<and> readable f' = readable f \<and> writable f' = writable f" by simp
  ultimately show ?thesis by blast
qed

text \<open>The theorem in a world with a second file that holds the literal as well.\<close>

theorem only_target_file_changes_witness:
  "patch_ordinals_api [''patch_ordinals_api.py'', ''constants.ts'']
      \<lparr>files = [''README.md'' \<mapsto> RegularFile
          \<lparr>content = search_literal, readable = True, writable = True\<rparr>,
         ''constants.ts'' \<mapsto> RegularFile
          \<lparr>content = search_literal, readable = True, writable = True\<rparr>],
       stdout = ''out'', stderr = ''err''\<rparr>
    = Inr \<lparr>files = [''README.md'' \<mapsto> RegularFile
          \<lparr>content = search_literal, readable = True, writable = True\<rparr>,
         ''constants.ts'' \<mapsto> RegularFile
          \<lparr>content = replacement_literal, readable = True, writable = True\<rparr>],
       stdout = ''out'', stderr = ''err''\<rparr>
   \<and> stdout \<lparr>files = [''README.md'' \<mapsto> RegularFile
          \<lparr>content = search_literal, readable = True, writable = True\<rparr>,
         ''constants.ts'' \<mapsto> RegularFile
          \<lparr>content = replacement_literal, readable = True, writable = True\<rparr>],
       stdout = ''out'', stderr = ''err''\<rparr> = ''out''
   \<and> files \<lparr>files = [''README.md'' \<mapsto> RegularFile
          \<lparr>content = search_literal, readable = True, writable = True\<rparr>,
         ''constants.ts'' \<mapsto> RegularFile
          \<lparr>content = replacement_literal, readable = True, writable = True\<rparr>],
       stdout = ''out'', stderr = ''err''\<rparr> ''README.md''
     = Some (RegularFile \<lparr>content = search_literal, readable = True, writable = True\<rparr>)"
proof -
  let ?g = "\<lparr>content = search_literal, readable = True, writable = True\<rparr>"
  let ?g' = "\<lparr>content = replacement_literal, readable = True, writable = True\<rparr>"
  let ?w = "\<lparr>files = [''README.md'' \<mapsto> RegularFile ?g, ''constants.ts'' \<mapsto> RegularFile ?g],
       stdout = ''out'', stderr = ''err''\<rparr>"
  let ?w' = "\<lparr>files = [''README.md'' \<mapsto> RegularFile ?g, ''constants.ts'' \<mapsto> RegularFile ?g'],
       stdout = ''out'', stderr = ''err''\<rparr>"
  have h: "patch_ordinals_api [''patch_ordinals_api.py'', ''constants.ts''] ?w = Inr ?w'"
    by (simp add: patch_ordinals_api_def read_text_def write_text_def write_newlines_posix
        search_literal_def replacement_literal_def well_formed_utf8_def)
  from only_target_file_changes [OF h] h show ?thesis by simp
qed

subsection \<open>C9: determinism\<close>

text \<open>
  Claim C9, as amended. The content that a run of the patcher leaves in the target file
  is a function of the initial content and of the access the process has to the file:
  for any two runs, whatever their worlds, paths and other arguments are, if the two
  target files start with the same content and may be read alike and written alike, then
  they end with the same content, and the two runs both end normally or both end with an
  exception.
\<close>

theorem patcher_deterministic:
  assumes "files w1 p1 = Some (RegularFile f1)" and "files w2 p2 = Some (RegularFile f2)"
    and "content f1 = content f2"
    and "readable f1 = readable f2" and "writable f1 = writable f2"
  shows "\<exists>g1 g2. files (final_world (patch_ordinals_api (a1 # p1 # rest1) w1)) p1
        = Some (RegularFile g1)
    \<and> files (final_world (patch_ordinals_api (a2 # p2 # rest2) w2)) p2
        = Some (RegularFile g2)
    \<and> content g1 = content g2
    \<and> content g1 =
        (if readable f1 \<and> writable f1 \<and> utf8_valid (content f1)
         then str_replace search_literal replacement_literal
                (translate_newlines (content f1))
         else content f1)
    \<and> (isl (patch_ordinals_api (a1 # p1 # rest1) w1)
          \<longleftrightarrow> isl (patch_ordinals_api (a2 # p2 # rest2) w2))"
proof (cases "readable f1 \<and> writable f1 \<and> utf8_valid (content f1)")
  case True
  let ?c = "str_replace search_literal replacement_literal (translate_newlines (content f1))"
  from True assms(3-5) have ok2: "readable f2" "writable f2" "utf8_valid (content f2)"
    by simp_all
  from True have ok1: "readable f1" "writable f1" "utf8_valid (content f1)" by simp_all
  have 1: "patch_ordinals_api (a1 # p1 # rest1) w1
      = Inr (w1\<lparr>files := (files w1)(p1 \<mapsto> RegularFile (f1\<lparr>content := ?c\<rparr>))\<rparr>)"
    using patch_run [OF assms(1) ok1] by simp
  have 2: "patch_ordinals_api (a2 # p2 # rest2) w2
      = Inr (w2\<lparr>files := (files w2)(p2 \<mapsto> RegularFile (f2\<lparr>content := ?c\<rparr>))\<rparr>)"
    using patch_run [OF assms(2) ok2] assms(3) by simp
  have "files (final_world (patch_ordinals_api (a1 # p1 # rest1) w1)) p1
      = Some (RegularFile (f1\<lparr>content := ?c\<rparr>))"
    "files (final_world (patch_ordinals_api (a2 # p2 # rest2) w2)) p2
      = Some (RegularFile (f2\<lparr>content := ?c\<rparr>))"
    "content (f1\<lparr>content := ?c\<rparr>) = content (f2\<lparr>content := ?c\<rparr>)"
    "content (f1\<lparr>content := ?c\<rparr>) = ?c"
    "isl (patch_ordinals_api (a1 # p1 # rest1) w1)
      \<longleftrightarrow> isl (patch_ordinals_api (a2 # p2 # rest2) w2)"
    by (simp_all add: 1 2 final_world_def)
  with True show ?thesis by auto
next
  case False
  with assms(3-5) have "\<not> (readable f2 \<and> writable f2 \<and> utf8_valid (content f2))" by simp
  with patch_fails [OF assms(2), of a2 rest2] obtain e2
    where 2: "patch_ordinals_api (a2 # p2 # rest2) w2 = Inl (e2, w2)" by blast
  from False patch_fails [OF assms(1), of a1 rest1] obtain e1
    where 1: "patch_ordinals_api (a1 # p1 # rest1) w1 = Inl (e1, w1)" by blast
  have "files (final_world (patch_ordinals_api (a1 # p1 # rest1) w1)) p1 = Some (RegularFile f1)"
    "files (final_world (patch_ordinals_api (a2 # p2 # rest2) w2)) p2 = Some (RegularFile f2)"
    "isl (patch_ordinals_api (a1 # p1 # rest1) w1)
      \<longleftrightarrow> isl (patch_ordinals_api (a2 # p2 # rest2) w2)"
    using assms(1,2) by (simp_all add: 1 2 final_world_def)
  with False assms(3) show ?thesis by auto
qed

text \<open>
  The theorem at two runs that differ in the script name, the path, a further argument,
  the other entries of the file system and the standard output.
\<close>

theorem patcher_deterministic_witness:
  "files \<lparr>files = [''constants.ts'' \<mapsto> RegularFile
          \<lparr>content = search_literal, readable = True, writable = True\<rparr>],
       stdout = [], stderr = []\<rparr> ''constants.ts''
     = Some (RegularFile \<lparr>content = search_literal, readable = True, writable = True\<rparr>)
   \<and> files \<lparr>files = [''README.md'' \<mapsto> Directory, ''src/genesis.ts'' \<mapsto> RegularFile
          \<lparr>content = search_literal, readable = True, writable = True\<rparr>],
       stdout = ''out'', stderr = []\<rparr> ''src/genesis.ts''
     = Some (RegularFile \<lparr>content = search_literal, readable = True, writable = True\<rparr>)
   \<and> patch_ordinals_api [''patch_ordinals_api.py'', ''constants.ts'']
      \<lparr>files = [''constants.ts'' \<mapsto> RegularFile
          \<lparr>content = search_literal, readable = True, writable = True\<rparr>],
       stdout = [], stderr = []\<rparr>
    = Inr \<lparr>files = [''constants.ts'' \<mapsto> RegularFile
          \<lparr>content = replacement_literal, readable = True, writable = True\<rparr>],
       stdout = [], stderr = []\<rparr>
   \<and> patch_ordinals_api [''./patch.py'', ''src/genesis.ts'', ''--verbose'']
      \<lparr>files = [''README.md'' \<mapsto> Directory, ''src/genesis.ts'' \<mapsto> RegularFile
          \<lparr>content = search_literal, readable = True, writable = True\<rparr>],
       stdout = ''out'', stderr = []\<rparr>
    = Inr \<lparr>files = [''README.md'' \<mapsto> Directory, ''src/genesis.ts'' \<mapsto> RegularFile
          \<lparr>content = replacement_literal, readable = True, writable = True\<rparr>],
       stdout = ''out'', stderr = []\<rparr>
   \<and> (\<exists>g1 g2.
        files \<lparr>files = [''constants.ts'' \<mapsto> RegularFile
          \<lparr>content = replacement_literal, readable = True, writable = True\<rparr>],
          stdout = [], stderr = []\<rparr> ''constants.ts'' = Some (RegularFile g1)
      \<and> files \<lparr>files = [''README.md'' \<mapsto> Directory, ''src/genesis.ts'' \<mapsto> RegularFile
          \<lparr>content = replacement_literal, readable = True, writable = True\<rparr>],
          stdout = ''out'', stderr = []\<rparr> ''src/genesis.ts'' = Some (RegularFile g2)
      \<and> content g1 = content g2)"
proof -
  let ?f = "\<lparr>content = search_literal, readable = True, writable = True\<rparr>"
  let ?g = "\<lparr>content = replacement_literal, readable = True, writable = True\<rparr>"
  let ?v = "\<lparr>files = [''constants.ts'' \<mapsto> RegularFile ?f], stdout = [], stderr = []\<rparr>"
  let ?v' = "\<lparr>files = [''constants.ts'' \<mapsto> RegularFile ?g], stdout = [], stderr = []\<rparr>"
  let ?w = "\<lparr>files = [''README.md'' \<mapsto> Directory, ''src/genesis.ts'' \<mapsto> RegularFile ?f],
       stdout = ''out'', stderr = []\<rparr>"
  let ?w' = "\<lparr>files = [''README.md'' \<mapsto> Directory, ''src/genesis.ts'' \<mapsto> RegularFile ?g],
       stdout = ''out'', stderr = []\<rparr>"
  have r1: "patch_ordinals_api [''patch_ordinals_api.py'', ''constants.ts''] ?v = Inr ?v'"
    by (simp add: patch_ordinals_api_def read_text_def write_text_def write_newlines_posix
        search_literal_def replacement_literal_def well_formed_utf8_def)
  have r2: "patch_ordinals_api [''./patch.py'', ''src/genesis.ts'', ''--verbose''] ?w = Inr ?w'"
    by (simp add: patch_ordinals_api_def read_text_def write_text_def write_newlines_posix
        search_literal_def replacement_literal_def well_formed_utf8_def)
  have h: "files ?v ''constants.ts'' = Some (RegularFile ?f)"
    "files ?w ''src/genesis.ts'' = Some (RegularFile ?f)" "content ?f = content ?f"
    "readable ?f = readable ?f" "writable ?f = writable ?f"
    by simp_all
  from patcher_deterministic [OF h, of "''patch_ordinals_api.py''" "[]" "''./patch.py''" "[''--verbose'']"]
  obtain g1 g2 where g: "files (final_world
        (patch_ordinals_api [''patch_ordinals_api.py'', ''constants.ts''] ?v)) ''constants.ts''
        = Some (RegularFile g1)"
    "files (final_world
        (patch_ordinals_api [''./patch.py'', ''src/genesis.ts'', ''--verbose''] ?w)) ''src/genesis.ts''
        = Some (RegularFile g2)"
    "content g1 = content g2" by blast
  from g(1) have g1: "files ?v' ''constants.ts'' = Some (RegularFile g1)"
    unfolding r1 by (simp add: final_world_def)
  from g(2) have g2: "files ?w' ''src/genesis.ts'' = Some (RegularFile g2)"
    unfolding r2 by (simp add: final_world_def)
  show ?thesis
  proof (intro conjI exI)
    show "files ?v ''constants.ts'' = Some (RegularFile ?f)" by (rule h(1))
    show "files ?w ''src/genesis.ts'' = Some (RegularFile ?f)" by (rule h(2))
    show "patch_ordinals_api [''patch_ordinals_api.py'', ''constants.ts''] ?v = Inr ?v'"
      by (rule r1)
    show "patch_ordinals_api [''./patch.py'', ''src/genesis.ts'', ''--verbose''] ?w = Inr ?w'"
      by (rule r2)
    show "files ?v' ''constants.ts'' = Some (RegularFile g1)" by (rule g1)
    show "files ?w' ''src/genesis.ts'' = Some (RegularFile g2)" by (rule g2)
    show "content g1 = content g2" by (rule g(3))
  qed
qed

text \<open>
  C9 as stated fails on two files with the same content of which one may not be
  written: the run on the first replaces the literal, the run on the second ends with
  \<^verbatim>\<open>PermissionError\<close> and the literal stays.
\<close>

theorem patcher_deterministic_counterexample:
  "patch_ordinals_api [''patch_ordinals_api.py'', ''constants.ts'']
      \<lparr>files = [''constants.ts'' \<mapsto> RegularFile
          \<lparr>content = search_literal, readable = True, writable = True\<rparr>],
       stdout = [], stderr = []\<rparr>
    = Inr \<lparr>files = [''constants.ts'' \<mapsto> RegularFile
          \<lparr>content = replacement_literal, readable = True, writable = True\<rparr>],
       stdout = [], stderr = []\<rparr>
   \<and> patch_ordinals_api [''patch_ordinals_api.py'', ''constants.ts'']
      \<lparr>files = [''constants.ts'' \<mapsto> RegularFile
          \<lparr>content = search_literal, readable = True, writable = False\<rparr>],
       stdout = [], stderr = []\<rparr>
    = Inl (PermissionError,
       \<lparr>files = [''constants.ts'' \<mapsto> RegularFile
          \<lparr>content = search_literal, readable = True, writable = False\<rparr>],
       stdout = [], stderr = []\<rparr>)
   \<and> replacement_literal \<noteq> search_literal"
  by (simp add: patch_ordinals_api_def read_text_def write_text_def write_newlines_posix
        search_literal_def replacement_literal_def well_formed_utf8_def)

subsection \<open>C10: the length of the file\<close>

text \<open>
  Claim C10, as amended. For every readable and writable file that holds well-formed
  UTF-8, a run of the patcher ends normally and the length of the new content is the
  length of the old content minus five for every occurrence of the search literal and
  minus one for every \<^verbatim>\<open>\r\n\<close> pair; hence the patcher never increases the length of
  the file.
\<close>

theorem length_after_patch:
  assumes "files w p = Some (RegularFile f)" and "readable f" and "writable f"
    and "utf8_valid (content f)"
  shows "\<exists>w' f'. patch_ordinals_api (a # p # rest) w = Inr w'
    \<and> files w' p = Some (RegularFile f')
    \<and> length (content f') + 5 * occurrences search_literal (content f)
          + crlf_pairs (content f) = length (content f)
    \<and> length (content f') \<le> length (content f)"
proof -
  let ?c = "str_replace search_literal replacement_literal (translate_newlines (content f))"
  let ?f = "f\<lparr>content := ?c\<rparr>"
  let ?w = "w\<lparr>files := (files w)(p \<mapsto> RegularFile ?f)\<rparr>"
  have run: "patch_ordinals_api (a # p # rest) w = Inr ?w"
    using assms by (rule patch_run)
  have target: "files ?w p = Some (RegularFile ?f)" by simp
  have len: "length (content ?f) + 5 * occurrences search_literal (content f)
          + crlf_pairs (content f) = length (content f)"
    using length_patched_text [of "content f"] by simp
  then have "length (content ?f) \<le> length (content f)" by linarith
  with run target len show ?thesis by blast
qed

text \<open>The theorem at a file holding the literal and a \<^verbatim>\<open>\r\n\<close> line ending.\<close>

theorem length_after_patch_witness:
  "files \<lparr>files = [''constants.ts'' \<mapsto> RegularFile
        \<lparr>content = search_literal @ [CR, LF],
         readable = True, writable = True\<rparr>], stdout = [], stderr = []\<rparr> ''constants.ts''
     = Some (RegularFile \<lparr>content = search_literal @ [CR, LF],
         readable = True, writable = True\<rparr>)
   \<and> utf8_valid (search_literal @ [CR, LF])
   \<and> (\<exists>w' f'. patch_ordinals_api [''patch_ordinals_api.py'', ''constants.ts'']
        \<lparr>files = [''constants.ts'' \<mapsto> RegularFile
          \<lparr>content = search_literal @ [CR, LF],
           readable = True, writable = True\<rparr>], stdout = [], stderr = []\<rparr> = Inr w'
      \<and> files w' ''constants.ts'' = Some (RegularFile f')
      \<and> length (content f') + 5 * occurrences search_literal (search_literal @ [CR, LF])
          + crlf_pairs (search_literal @ [CR, LF]) = length (search_literal @ [CR, LF])
      \<and> length (content f') \<le> length (search_literal @ [CR, LF]))"
proof -
  let ?f = "\<lparr>content = search_literal @ [CR, LF], readable = True, writable = True\<rparr>"
  let ?w = "\<lparr>files = [''constants.ts'' \<mapsto> RegularFile ?f], stdout = [], stderr = []\<rparr>"
  have h: "files ?w ''constants.ts'' = Some (RegularFile ?f)" "readable ?f" "writable ?f"
    "utf8_valid (content ?f)"
    by (simp_all add: search_literal_def well_formed_utf8_def)
  from length_after_patch [OF h, of "''patch_ordinals_api.py''" "[]"] h(1,4)
  show ?thesis by simp
qed

text \<open>
  C10 as stated fails on the same file: one occurrence, 44 characters before the run and
  38 after it, not 39.
\<close>

theorem length_after_patch_counterexample:
  "patch_ordinals_api [''patch_ordinals_api.py'', ''constants.ts'']
      \<lparr>files = [''constants.ts'' \<mapsto> RegularFile
          \<lparr>content = search_literal @ [CR, LF], readable = True, writable = True\<rparr>],
       stdout = [], stderr = []\<rparr>
    = Inr \<lparr>files = [''constants.ts'' \<mapsto> RegularFile
          \<lparr>content = replacement_literal @ [LF], readable = True, writable = True\<rparr>],
       stdout = [], stderr = []\<rparr>
   \<and> occurrences search_literal (search_literal @ [CR, LF]) = 1
   \<and> length (search_literal @ [CR, LF]) = 44
   \<and> length (replacement_literal @ [LF]) = 38
   \<and> length (replacement_literal @ [LF])
       \<noteq> length (search_literal @ [CR, LF])
           - 5 * occurrences search_literal (search_literal @ [CR, LF])"
  by (simp add: patch_ordinals_api_def read_text_def write_text_def write_newlines_posix
        search_literal_def replacement_literal_def well_formed_utf8_def)

end
